theory Spec2Isabelle
  imports Complex_Main "HOL-Library.Log_Nat" "HOL-Library.Monad_Syntax" "HOL-Library.Word"
begin

unbundle bit_operations_syntax

section \<open>Arithmetic of the C++ types used by \<open>font_to_svg.hpp\<close>\<close>

text \<open>
  The header computes with \<open>FT_Pos\<close> (a signed long), \<open>int\<close>, \<open>char\<close> and \<open>double\<close>.
  A finite \<open>double\<close> is modelled by the rational number it denotes. Every arithmetic
  operation on doubles rounds its exact result to the nearest value with a 53-bit
  significand, ties to even (IEEE 754 binary64, the default rounding mode). The exponent
  range is not bounded in the model, so it agrees with the hardware for results whose
  magnitude lies between \<open>2^-1022\<close> and \<open>2^1024\<close>, and for zero.

  Undefined behaviour of the C++ program (an out-of-range \<open>operator[]\<close>, a signed
  overflow, a conversion to \<open>int\<close> of a value that does not fit) is the result \<open>None\<close>.
\<close>

type_synonym double = rat

definition pow2 :: "int \<Rightarrow> rat" where
  "pow2 e = (if 0 \<le> e then 2 ^ nat e else 1 / 2 ^ nat (- e))"

text \<open>For \<open>0 < x\<close>, \<open>exponent x\<close> is the integer \<open>e\<close> with \<open>2^e \<le> x < 2^(e+1)\<close>.\<close>

definition exponent :: "rat \<Rightarrow> int" where
  "exponent x = (if 1 \<le> x then bitlen \<lfloor>x\<rfloor> - 1 else - bitlen (\<lceil>1 / x\<rceil> - 1))"

definition round_half_even :: "rat \<Rightarrow> int" where
  "round_half_even m =
     (let f = \<lfloor>m\<rfloor>; r = m - of_int f
      in if r < 1 / 2 then f else if 1 / 2 < r then f + 1 else if even f then f else f + 1)"

definition round_double :: "rat \<Rightarrow> double" where
  "round_double v =
     (if v = 0 then 0
      else let u = pow2 (exponent \<bar>v\<bar> - 52)
           in sgn v * of_int (round_half_even (\<bar>v\<bar> / u)) * u)"

definition dadd :: "double \<Rightarrow> double \<Rightarrow> double" where
  "dadd a b = round_double (a + b)"

definition dsub :: "double \<Rightarrow> double \<Rightarrow> double" where
  "dsub a b = round_double (a - b)"

definition dmul :: "double \<Rightarrow> double \<Rightarrow> double" where
  "dmul a b = round_double (a * b)"

text \<open>The conversion of a signed long to double, as in \<open>points[i].x + offsetX\<close>.\<close>

definition double_of_long :: "int \<Rightarrow> double" where
  "double_of_long n = round_double (of_int n)"

text \<open>The conversion of a 32-bit \<open>int\<close> to double is exact (\<open>Point2D(x, y)\<close>).\<close>

definition double_of_int :: "int \<Rightarrow> double" where
  "double_of_int n = of_int n"

definition in_int_range :: "int \<Rightarrow> bool" where
  "in_int_range n \<longleftrightarrow> - (2 ^ 31) \<le> n \<and> n < 2 ^ 31"

text \<open>
  \<open>int x = d\<close> for a double \<open>d\<close>: the fractional part is discarded (truncation towards
  zero); the behaviour is undefined when the truncated value does not fit an \<open>int\<close>.
\<close>

definition trunc_toward_zero :: "double \<Rightarrow> int" where
  "trunc_toward_zero d = (if 0 \<le> d then \<lfloor>d\<rfloor> else \<lceil>d\<rceil>)"

definition to_int :: "double \<Rightarrow> int option" where
  "to_int d = (if in_int_range (trunc_toward_zero d) then Some (trunc_toward_zero d) else None)"

text \<open>
  \<open>(a + b) / 2\<close> on \<open>int\<close>, as in \<open>x = (x + nx) / 2\<close>: the quotient is truncated
  towards zero; overflow of the sum is undefined. (The header's function
  \<open>halfway_between\<close> is not called by \<open>do_outline\<close>.)
\<close>

definition int_div2 :: "int \<Rightarrow> int" where
  "int_div2 s = (if 0 \<le> s then s div 2 else - ((- s) div 2))"

definition halfway_int :: "int \<Rightarrow> int \<Rightarrow> int option" where
  "halfway_int a b = (if in_int_range (a + b) then Some (int_div2 (a + b)) else None)"

text \<open>
  \<open>stream << d\<close> for a double \<open>d\<close>. The streams of the header are never given a
  precision or a float format, so the text is that of \<open>printf("%g", d)\<close>: the exact
  value of \<open>d\<close> rounded to 6 significant decimal digits (ties to even, as glibc does in
  the default rounding mode), in fixed or in scientific notation, without trailing
  zeros; \<open>1234567\<close> is written \<open>1.23457e+06\<close> and \<open>2.0000000000000004\<close> is written
  \<open>2\<close>. The choice of the notation and the digits are determined by the rounded
  number; \<open>print_double d\<close> is that number, the one that the text denotes.

  For \<open>0 < x\<close>, \<open>decimal_exponent x\<close> is the integer \<open>e\<close> with \<open>10^e \<le> x < 10^(e+1)\<close>.
\<close>

definition pow10 :: "int \<Rightarrow> rat" where
  "pow10 e = (if 0 \<le> e then 10 ^ nat e else 1 / 10 ^ nat (- e))"

definition decimal_exponent :: "rat \<Rightarrow> int" where
  "decimal_exponent x =
     (if 1 \<le> x then int (floorlog 10 (nat \<lfloor>x\<rfloor>)) - 1
      else - int (floorlog 10 (nat (\<lceil>1 / x\<rceil> - 1))))"

definition print_double :: "double \<Rightarrow> rat" where
  "print_double d =
     (if d = 0 then 0
      else let u = pow10 (decimal_exponent \<bar>d\<bar> - 5)
           in sgn d * of_int (round_half_even (\<bar>d\<bar> / u)) * u)"

text \<open>\<open>v[i]\<close> on a \<open>std::vector\<close> with an \<open>int\<close> index: undefined out of range.\<close>

definition vec_at :: "'a list \<Rightarrow> int \<Rightarrow> 'a option" where
  "vec_at v i = (if 0 \<le> i \<and> i < int (length v) then Some (v ! nat i) else None)"

section \<open>Data\<close>

text \<open>
  \<open>FT_Vector\<close> is FreeType's point: two \<open>FT_Pos\<close> fields \<open>x\<close> and \<open>y\<close>. \<open>Point2D\<close> is
  the header's struct of two doubles; its constructor is \<open>Point2D(x, y)\<close>.
\<close>

record FT_Vector =
  ft_x :: int
  ft_y :: int

datatype Point2D = Point2D (p2_x: double) (p2_y: double)

text \<open>
  What \<open>do_outline\<close> streams into \<open>svg\<close>. A number is streamed either as an \<open>int\<close>,
  whose text is its decimal numeral, or as a \<open>double\<close>, whose text has at most 6
  significant digits: \<open>AsInt n\<close> stands for the text of the \<open>int\<close> \<open>n\<close>, and
  \<open>AsDouble r\<close> for the text of a double that denotes the number \<open>r\<close> (a value of
  \<open>print_double\<close>). \<open>" M " << a << "," << b\<close> is \<open>MoveTo a b\<close>,
  \<open>" L " << a << "," << b\<close> and the \<open>" L " << a << " " << b\<close> of
  \<open>svgQuadraticBezier\<close> are \<open>LineTo a b\<close>,
  \<open>" Q " << cx << "," << cy << " " << ex << "," << ey\<close> is \<open>QuadCurveTo cx cy ex ey\<close>
  and \<open>" Z\n"\<close> is \<open>ClosePath\<close>.
\<close>

datatype coord = AsInt int | AsDouble rat

datatype cmd =
    is_MoveTo: MoveTo coord coord
  | is_LineTo: LineTo coord coord
  | is_QuadCurveTo: QuadCurveTo int int int int
  | is_ClosePath: ClosePath

text \<open>
  The returned string: one of the two comments of the early returns, or the \<open>path\<close>
  element whose \<open>d\<close> attribute holds the commands.
\<close>

datatype svg = Comment string | Path "cmd list"

text \<open>
  What a call writes to \<open>std::cout\<close>: literal text, or the contents of the local
  \<open>debug\<close> stream (whose text is not modelled).
\<close>

datatype cout_write = Text string | DebugTrace

section \<open>The curve tessellator\<close>

text \<open>
  \<open>quadraticBezier\<close>: each coordinate is
  \<open>pow(1 - t, 2) * p0 + (1 - t) * 2 * t * p1 + t * t * p2\<close>, every operation rounded on
  its own, in the order in which C++ groups them. \<open>pow(u, 2)\<close> is taken to be the
  correctly rounded square of \<open>u\<close> (an assumption on the C library, whose \<open>pow\<close> is
  not bound to round correctly).
\<close>

definition quadraticBezier :: "Point2D \<Rightarrow> Point2D \<Rightarrow> Point2D \<Rightarrow> double \<Rightarrow> Point2D" where
  "quadraticBezier p0 p1 p2 t =
     Point2D
       (dadd (dadd (dmul (dmul (dsub 1 t) (dsub 1 t)) (p2_x p0))
                   (dmul (dmul (dmul (dsub 1 t) 2) t) (p2_x p1)))
             (dmul (dmul t t) (p2_x p2)))
       (dadd (dadd (dmul (dmul (dsub 1 t) (dsub 1 t)) (p2_y p0))
                   (dmul (dmul (dmul (dsub 1 t) 2) t) (p2_y p1)))
             (dmul (dmul t t) (p2_y p2)))"

text \<open>
  \<open>for (double i = 0; i < 1.0; i += increment) res.push_back(...)\<close>. The loop need not
  end (an increment of zero), so the model is a partial function: \<open>None\<close> is a loop
  that never returns.
\<close>

partial_function (option) bezier_loop ::
  "Point2D \<Rightarrow> Point2D \<Rightarrow> Point2D \<Rightarrow> double \<Rightarrow> double \<Rightarrow> Point2D list \<Rightarrow> Point2D list option"
where
  "bezier_loop p0 p1 p2 increment i res =
     (if i < 1
      then bezier_loop p0 p1 p2 increment (dadd i increment) (res @ [quadraticBezier p0 p1 p2 i])
      else Some res)"

definition fullQuadraticBezier ::
  "Point2D \<Rightarrow> Point2D \<Rightarrow> Point2D \<Rightarrow> double \<Rightarrow> Point2D list option" where
  "fullQuadraticBezier p0 p1 p2 increment = bezier_loop p0 p1 p2 increment 0 []"

text \<open>The default argument \<open>increment = 0.1\<close>: the double nearest to one tenth.\<close>

definition default_increment :: double where
  "default_increment = round_double (1 / 10)"

text \<open>
  \<open>svgQuadraticBezier\<close>:
  \<open>res << " L " << quadBezier[i].x << " " << quadBezier[i].y << "\n"\<close> for each sample;
  the two doubles are streamed as doubles.
\<close>

definition svgQuadraticBezier :: "Point2D list \<Rightarrow> cmd list" where
  "svgQuadraticBezier quadBezier =
     map (\<lambda>p. LineTo (AsDouble (print_double (p2_x p))) (AsDouble (print_double (p2_y p)))) quadBezier"

section \<open>The contour path builder\<close>

text \<open>\<open>tags[i] & 1\<close>: bit 0 of the tag byte says that the point is on the curve.\<close>

definition tagbit1 :: "8 word \<Rightarrow> bool" where
  "tagbit1 t \<longleftrightarrow> t AND 1 \<noteq> 0"

text \<open>\<open>int x = points[i].x + offsetX; int y = points[i].y + offsetY;\<close>\<close>

definition point_at :: "FT_Vector list \<Rightarrow> double \<Rightarrow> double \<Rightarrow> int \<Rightarrow> (int \<times> int) option" where
  "point_at points offsetX offsetY i = do {
     p \<leftarrow> vec_at points i;
     x \<leftarrow> to_int (dadd (double_of_long (ft_x p)) offsetX);
     y \<leftarrow> to_int (dadd (double_of_long (ft_y p)) offsetY);
     Some (x, y)
   }"

text \<open>
  The two places that draw a curve from \<open>(x, y)\<close> with control point \<open>(nx, ny)\<close> to
  \<open>(nnx, nny)\<close>: a \<open>Q\<close> statement, or the line segments of the tessellated arc.
\<close>

definition curve_to :: "bool \<Rightarrow> int \<times> int \<Rightarrow> int \<times> int \<Rightarrow> int \<times> int \<Rightarrow> cmd list option" where
  "curve_to generateBezierStatements p c e =
     (if generateBezierStatements
      then Some [QuadCurveTo (fst c) (snd c) (fst e) (snd e)]
      else map_option svgQuadraticBezier
             (fullQuadraticBezier
                (Point2D (double_of_int (fst p)) (double_of_int (snd p)))
                (Point2D (double_of_int (fst c)) (double_of_int (snd c)))
                (Point2D (double_of_int (fst e)) (double_of_int (snd e)))
                default_increment))"

text \<open>
  The if-else chain at the end of the loop body, entered with the (possibly reset)
  \<open>x\<close>, \<open>y\<close> and \<open>this_isctl\<close>.
\<close>

definition segment ::
  "bool \<Rightarrow> bool \<Rightarrow> bool \<Rightarrow> bool \<Rightarrow> int \<times> int \<Rightarrow> int \<times> int \<Rightarrow> int \<times> int \<Rightarrow> cmd list option" where
  "segment generateBezierStatements this_isctl next_isctl nextnext_isctl p n nn =
     (if \<not> this_isctl \<and> next_isctl \<and> \<not> nextnext_isctl then
        curve_to generateBezierStatements p n nn
      else if \<not> this_isctl \<and> next_isctl \<and> nextnext_isctl then do {
        nnx \<leftarrow> halfway_int (fst n) (fst nn);
        nny \<leftarrow> halfway_int (snd n) (snd nn);
        curve_to generateBezierStatements p n (nnx, nny)
      }
      else if \<not> this_isctl \<and> \<not> next_isctl then
        Some [LineTo (AsInt (fst n)) (AsInt (snd n))]
      else Some [])"

text \<open>One pass through the body of the loop over \<open>j\<close>.\<close>

definition iteration ::
  "FT_Vector list \<Rightarrow> 8 word list \<Rightarrow> double \<Rightarrow> double \<Rightarrow> bool \<Rightarrow> int \<Rightarrow> int \<Rightarrow> int \<Rightarrow> cmd list option"
where
  "iteration points tags offsetX offsetY generateBezierStatements offset npts j = do {
     let thisi = j mod npts + offset;
     let nexti = (j + 1) mod npts + offset;
     let nextnexti = (j + 2) mod npts + offset;
     p \<leftarrow> point_at points offsetX offsetY thisi;
     n \<leftarrow> point_at points offsetX offsetY nexti;
     nn \<leftarrow> point_at points offsetX offsetY nextnexti;
     this_tag \<leftarrow> vec_at tags thisi;
     next_tag \<leftarrow> vec_at tags nexti;
     nextnext_tag \<leftarrow> vec_at tags nextnexti;
     let this_isctl = \<not> tagbit1 this_tag;
     let next_isctl = \<not> tagbit1 next_tag;
     let nextnext_isctl = \<not> tagbit1 nextnext_tag;
     if this_isctl \<and> next_isctl then do {
       x \<leftarrow> halfway_int (fst p) (fst n);
       y \<leftarrow> halfway_int (snd p) (snd n);
       rest \<leftarrow> segment generateBezierStatements False next_isctl nextnext_isctl (x, y) n nn;
       Some ((if j = 0 then [MoveTo (AsInt x) (AsInt y)] else []) @ rest)
     }
     else segment generateBezierStatements this_isctl next_isctl nextnext_isctl p n nn
   }"

text \<open>\<open>for (int j = 0; j < npts; j++) { ... }\<close>\<close>

function contour_loop ::
  "FT_Vector list \<Rightarrow> 8 word list \<Rightarrow> double \<Rightarrow> double \<Rightarrow> bool \<Rightarrow> int \<Rightarrow> int \<Rightarrow> int \<Rightarrow> cmd list option"
where
  "contour_loop points tags offsetX offsetY generateBezierStatements offset npts j =
     (if j < npts then do {
        c \<leftarrow> iteration points tags offsetX offsetY generateBezierStatements offset npts j;
        cs \<leftarrow> contour_loop points tags offsetX offsetY generateBezierStatements offset npts (j + 1);
        Some (c @ cs)
      }
      else Some [])"
  by pat_completeness auto
termination
  by (relation "measure (\<lambda>(points, tags, offsetX, offsetY, g, offset, npts, j). nat (npts - j))") auto

declare contour_loop.simps [simp del]

text \<open>
  The body of the loop over the contours, for the contour from \<open>contour_starti\<close> to
  \<open>contour_endi\<close>. The first \<open>M\<close> is
  \<open>svg << "\n M " << points[contour_starti].x + offsetX << "," << points[contour_starti].y + offsetY\<close>:
  the two sums are doubles and are streamed as doubles, where the loop over the points
  first assigns such sums to \<open>int\<close> variables.
\<close>

definition do_contour ::
  "FT_Vector list \<Rightarrow> 8 word list \<Rightarrow> double \<Rightarrow> double \<Rightarrow> bool \<Rightarrow> int \<Rightarrow> int \<Rightarrow> cmd list option"
where
  "do_contour points tags offsetX offsetY generateBezierStatements contour_starti contour_endi = do {
     let offset = contour_starti;
     let npts = contour_endi - contour_starti + 1;
     first \<leftarrow> vec_at points contour_starti;
     body \<leftarrow> contour_loop points tags offsetX offsetY generateBezierStatements offset npts 0;
     Some (MoveTo (AsDouble (print_double (dadd (double_of_long (ft_x first)) offsetX)))
                  (AsDouble (print_double (dadd (double_of_long (ft_y first)) offsetY)))
           # body @ [ClosePath])
   }"

text \<open>\<open>for (unsigned int i = 0; i < contours.size(); i++)\<close>, with \<open>contour_starti\<close> as state.\<close>

fun contours_loop ::
  "FT_Vector list \<Rightarrow> 8 word list \<Rightarrow> double \<Rightarrow> double \<Rightarrow> bool \<Rightarrow> int \<Rightarrow> int list \<Rightarrow> cmd list option"
where
  "contours_loop points tags offsetX offsetY generateBezierStatements contour_starti [] = Some []"
| "contours_loop points tags offsetX offsetY generateBezierStatements contour_starti (contour_endi # rest) = do {
     c \<leftarrow> do_contour points tags offsetX offsetY generateBezierStatements contour_starti contour_endi;
     cs \<leftarrow> contours_loop points tags offsetX offsetY generateBezierStatements (contour_endi + 1) rest;
     Some (c @ cs)
   }"

text \<open>
  \<open>do_outline\<close>. The global \<open>hasDebug\<close> is read by the function and is its first
  argument here; the result is what the call wrote to \<open>std::cout\<close> and the string it
  returned.
\<close>

definition do_outline ::
  "bool \<Rightarrow> FT_Vector list \<Rightarrow> 8 word list \<Rightarrow> int list \<Rightarrow> double \<Rightarrow> double \<Rightarrow> bool
     \<Rightarrow> (cout_write list \<times> svg) option"
where
  "do_outline hasDebug points tags contours offsetX offsetY generateBezierStatements =
     (if points = [] then
        Some ([Text ''<!-- do outline -->\<newline>''], Comment ''<!-- font had 0 points -->'')
      else if contours = [] then
        Some ([Text ''<!-- do outline -->\<newline>''], Comment ''<!-- font had 0 contours -->'')
      else do {
        cmds \<leftarrow> contours_loop points tags offsetX offsetY generateBezierStatements 0 contours;
        Some (Text ''<!-- do outline -->\<newline>'' # (if hasDebug then [DebugTrace] else []), Path cmds)
      })"

section \<open>Notions used to state the properties\<close>

text \<open>
  The values that the loop variable \<open>i\<close> of \<open>fullQuadraticBezier\<close> takes while
  \<open>i < 1.0\<close> holds, for the default increment: \<open>0\<close>, then the double sums
  \<open>0 + 0.1\<close>, \<open>(0 + 0.1) + 0.1\<close> and so on. In decimal they read 0, 0.1, 0.2,
  0.30000000000000004, 0.4, 0.5, 0.6, 0.7, 0.7999999999999999, 0.8999999999999999 and
  0.9999999999999999.
\<close>

definition default_params :: "double list" where
  "default_params =
     [0,
      3602879701896397 / 36028797018963968,
      3602879701896397 / 18014398509481984,
      1351079888211149 / 4503599627370496,
      3602879701896397 / 9007199254740992,
      1 / 2,
      5404319552844595 / 9007199254740992,
      3152519739159347 / 4503599627370496,
      7205759403792793 / 9007199254740992,
      2026619832316723 / 2251799813685248,
      9007199254740991 / 9007199254740992]"

text \<open>The commands held by a returned string; a comment holds none.\<close>

fun path_cmds :: "svg \<Rightarrow> cmd list" where
  "path_cmds (Comment s) = []"
| "path_cmds (Path cs) = cs"

text \<open>
  The invariant of a well-formed outline: there is one tag for each point, and the
  contours, given by the index of their last point, are non-empty runs that follow one
  another from index 0 and end at the last point.
\<close>

fun contiguous :: "int \<Rightarrow> int list \<Rightarrow> int \<Rightarrow> bool" where
  "contiguous starti [] n \<longleftrightarrow> starti = n"
| "contiguous starti (endi # rest) n \<longleftrightarrow> starti \<le> endi \<and> endi < n \<and> contiguous (endi + 1) rest n"

definition well_formed :: "FT_Vector list \<Rightarrow> 8 word list \<Rightarrow> int list \<Rightarrow> bool" where
  "well_formed points tags contours \<longleftrightarrow>
     length tags = length points \<and> contiguous 0 contours (int (length points))"

text \<open>
  The transformed points of the contour from \<open>starti\<close> to \<open>endi\<close>: for each point, the
  truncation of the double sum of its coordinate and the offset. \<open>midpoints\<close> holds
  the \<open>int\<close> midpoints of any two of them.
\<close>

definition grid_points :: "FT_Vector list \<Rightarrow> double \<Rightarrow> double \<Rightarrow> int \<Rightarrow> int \<Rightarrow> (int \<times> int) list" where
  "grid_points points offsetX offsetY starti endi =
     map (\<lambda>i. (trunc_toward_zero (dadd (double_of_long (ft_x (points ! nat i))) offsetX),
                trunc_toward_zero (dadd (double_of_long (ft_y (points ! nat i))) offsetY)))
         [starti..endi]"

definition midpoints :: "(int \<times> int) list \<Rightarrow> (int \<times> int) list" where
  "midpoints ps = [(int_div2 (fst p + fst q), int_div2 (snd p + snd q)). p \<leftarrow> ps, q \<leftarrow> ps]"

text \<open>
  \<open>tessellated_lines G\<close>: the \<open>L\<close> commands that \<open>svgQuadraticBezier\<close> makes of the
  tessellated arcs from a point of \<open>G\<close> or a midpoint to a point of \<open>G\<close> or a midpoint,
  with a control point of \<open>G\<close>. \<open>emitted_from g G c\<close> says what a command \<open>c\<close> written
  inside the loop over the points may carry: an \<open>M\<close> a midpoint, as two \<open>int\<close>; an
  \<open>L\<close> a point of \<open>G\<close> as two \<open>int\<close>, or, without Bezier statements, a sample of a
  tessellated arc as the text of two doubles; a \<open>Q\<close>, with Bezier statements only, a
  control point of \<open>G\<close> and an end point of \<open>G\<close> or a midpoint, as four \<open>int\<close>.
\<close>

definition tessellated_lines :: "(int \<times> int) list \<Rightarrow> cmd list" where
  "tessellated_lines G =
     concat [case curve_to False p c e of None \<Rightarrow> [] | Some cs \<Rightarrow> cs.
             p \<leftarrow> G @ midpoints G, c \<leftarrow> G, e \<leftarrow> G @ midpoints G]"

fun emitted_from :: "bool \<Rightarrow> (int \<times> int) list \<Rightarrow> cmd \<Rightarrow> bool" where
  "emitted_from g G (MoveTo a b) \<longleftrightarrow>
     (\<exists>m \<in> set (midpoints G). a = AsInt (fst m) \<and> b = AsInt (snd m))"
| "emitted_from g G (LineTo a b) \<longleftrightarrow>
     (\<exists>p \<in> set G. a = AsInt (fst p) \<and> b = AsInt (snd p))
     \<or> (\<not> g \<and> LineTo a b \<in> set (tessellated_lines G))"
| "emitted_from g G (QuadCurveTo cx cy ex ey) \<longleftrightarrow>
     g \<and> (cx, cy) \<in> set G \<and> (ex, ey) \<in> set (G @ midpoints G)"
| "emitted_from g G ClosePath \<longleftrightarrow> False"

text \<open>
  Two runs compared. \<open>shifted dx dy c c'\<close>: the commands \<open>c\<close> and \<open>c'\<close> are of the same
  kind, their coordinates are streamed in the same way, and every coordinate streamed as
  an \<open>int\<close> is moved by \<open>dx\<close> (an x coordinate) or by \<open>dy\<close> (a y coordinate); nothing
  is required of a coordinate streamed as a double.
\<close>

fun shifted_coord :: "int \<Rightarrow> coord \<Rightarrow> coord \<Rightarrow> bool" where
  "shifted_coord d (AsInt v) (AsInt w) \<longleftrightarrow> w = v + d"
| "shifted_coord d (AsDouble v) (AsDouble w) \<longleftrightarrow> True"
| "shifted_coord d (AsInt v) (AsDouble w) \<longleftrightarrow> False"
| "shifted_coord d (AsDouble v) (AsInt w) \<longleftrightarrow> False"

fun shifted :: "int \<Rightarrow> int \<Rightarrow> cmd \<Rightarrow> cmd \<Rightarrow> bool" where
  "shifted dx dy (MoveTo a b) (MoveTo a' b') \<longleftrightarrow> shifted_coord dx a a' \<and> shifted_coord dy b b'"
| "shifted dx dy (LineTo a b) (LineTo a' b') \<longleftrightarrow> shifted_coord dx a a' \<and> shifted_coord dy b b'"
| "shifted dx dy (QuadCurveTo cx cy ex ey) (QuadCurveTo cx' cy' ex' ey') \<longleftrightarrow>
     cx' = cx + dx \<and> cy' = cy + dy \<and> ex' = ex + dx \<and> ey' = ey + dy"
| "shifted dx dy ClosePath ClosePath \<longleftrightarrow> True"
| "shifted dx dy c c' \<longleftrightarrow> False"

text \<open>
  No truncation at a boundary. \<open>keeps_side s d\<close>: halving the sum \<open>s\<close> of two \<open>int\<close>
  coordinates and halving the sum \<open>s + 2 * d\<close> of the two coordinates moved by \<open>d\<close>
  truncate in the same direction: \<open>s\<close> is even, or the two sums are on the same side of
  zero. \<open>next_index\<close> is the index of the next point of the contour, the first point
  following the last. \<open>no_boundary\<close>: for every point of the contour, the truncated
  coordinates computed with the offsets \<open>offsetX + tx\<close> and \<open>offsetY + ty\<close> are those
  computed with \<open>offsetX\<close> and \<open>offsetY\<close>, moved by \<open>floor(tx)\<close> and \<open>floor(ty)\<close>; and
  for every two consecutive off-curve points of the contour, the sums of their
  coordinates keep their side.
\<close>

definition keeps_side :: "int \<Rightarrow> int \<Rightarrow> bool" where
  "keeps_side s d \<longleftrightarrow> even s \<or> (0 \<le> s \<and> 0 \<le> s + 2 * d) \<or> (s \<le> 0 \<and> s + 2 * d \<le> 0)"

definition next_index :: "int \<Rightarrow> int \<Rightarrow> int \<Rightarrow> int" where
  "next_index starti endi i = (i - starti + 1) mod (endi - starti + 1) + starti"

definition no_boundary ::
  "FT_Vector list \<Rightarrow> 8 word list \<Rightarrow> double \<Rightarrow> double \<Rightarrow> double \<Rightarrow> double \<Rightarrow> int \<Rightarrow> int \<Rightarrow> bool"
where
  "no_boundary points tags offsetX offsetY tx ty starti endi \<longleftrightarrow>
     (\<forall>i \<in> set [starti..endi].
        point_at points (dadd offsetX tx) (dadd offsetY ty) i =
          map_option (\<lambda>p. (fst p + \<lfloor>tx\<rfloor>, snd p + \<lfloor>ty\<rfloor>)) (point_at points offsetX offsetY i)
        \<and> (case (point_at points offsetX offsetY i,
                  point_at points offsetX offsetY (next_index starti endi i),
                  vec_at tags i, vec_at tags (next_index starti endi i)) of
             (Some p, Some n, Some t, Some tn) \<Rightarrow>
               \<not> tagbit1 t \<and> \<not> tagbit1 tn \<longrightarrow>
                 keeps_side (fst p + fst n) \<lfloor>tx\<rfloor> \<and> keeps_side (snd p + snd n) \<lfloor>ty\<rfloor>
           | _ \<Rightarrow> True))"

section \<open>Evaluation on numerals\<close>

text \<open>
  Rewrite rules that compute the definitions above on literal arguments: the floor and
  the ceiling of a fraction of two numerals, the double operations, and the builder.
\<close>

lemma floor_rat_numeral: "\<lfloor>numeral a / numeral b :: rat\<rfloor> = numeral a div numeral b"
  by (metis floor_divide_of_int_eq of_int_numeral)

lemma floor_rat_one: "\<lfloor>1 / numeral b :: rat\<rfloor> = 1 div numeral b"
  by (metis floor_divide_of_int_eq of_int_1 of_int_numeral)

lemma ceiling_rat_numeral: "\<lceil>numeral a / numeral b :: rat\<rceil> = - (- numeral a div numeral b)"
  using ceiling_divide_eq_div [of "numeral a" "numeral b", where ?'a = rat] by simp

lemma ceiling_rat_one: "\<lceil>1 / numeral b :: rat\<rceil> = - (- 1 div numeral b)"
  using ceiling_divide_eq_div [of 1 "numeral b", where ?'a = rat] by simp

lemma ceiling_rat_minus_numeral: "\<lceil>- (numeral a / numeral b) :: rat\<rceil> = - (numeral a div numeral b)"
  using ceiling_divide_eq_div [of "- numeral a" "numeral b", where ?'a = rat] by simp

lemma ceiling_rat_minus_one: "\<lceil>- (1 / numeral b) :: rat\<rceil> = - (1 div numeral b)"
  using ceiling_divide_eq_div [of "- 1" "numeral b", where ?'a = rat] by simp

lemmas double_eval =
  dadd_def dsub_def dmul_def double_of_long_def double_of_int_def round_double_def
  exponent_def pow2_def round_half_even_def Let_def compute_bitlen
  floor_rat_numeral floor_rat_one ceiling_rat_numeral ceiling_rat_one
  ceiling_rat_minus_numeral ceiling_rat_minus_one

lemma print_double_0: "print_double 0 = 0"
  by (simp add: print_double_def)

lemmas outline_eval =
  do_outline_def do_contour_def contour_loop.simps iteration_def segment_def curve_to_def
  point_at_def vec_at_def to_int_def trunc_toward_zero_def in_int_range_def halfway_int_def
  int_div2_def tagbit1_def double_eval print_double_0

lemmas print_eval =
  print_double_def pow10_def decimal_exponent_def round_half_even_def Let_def compute_floorlog
  floor_rat_numeral floor_rat_one ceiling_rat_numeral ceiling_rat_one

text \<open>
  Some texts of doubles: \<open>1.23457e+06\<close> for both \<open>1234567\<close> and \<open>1234568\<close>, \<open>2\<close> for
  \<open>2.0000000000000004\<close>, \<open>1.8\<close> for \<open>1.8000000000000003\<close>, \<open>1e+06\<close> for \<open>999999.5\<close>,
  \<open>-10.5\<close> and \<open>1e-05\<close>.
\<close>

lemma print_double_examples:
  "print_double 1234567 = 1234570"
  "print_double 1234568 = 1234570"
  "print_double (4503599627370497 / 2251799813685248) = 2"
  "print_double (4053239664633447 / 2251799813685248) = 9 / 5"
  "print_double (1999999 / 2) = 1000000"
  "print_double (- (21 / 2)) = - (21 / 2)"
  "print_double (1 / 100000) = 1 / 100000"
  by (simp_all add: print_eval)


section \<open>The tessellator with the default increment\<close>

lemma default_increment_val: "default_increment = 3602879701896397 / 36028797018963968"
  by (simp add: default_increment_def double_eval)

lemma accumulate:
  "dadd 0 (3602879701896397 / 36028797018963968) = 3602879701896397 / 36028797018963968"
  "dadd (3602879701896397 / 36028797018963968) (3602879701896397 / 36028797018963968) = 3602879701896397 / 18014398509481984"
  "dadd (3602879701896397 / 18014398509481984) (3602879701896397 / 36028797018963968) = 1351079888211149 / 4503599627370496"
  "dadd (1351079888211149 / 4503599627370496) (3602879701896397 / 36028797018963968) = 3602879701896397 / 9007199254740992"
  "dadd (3602879701896397 / 9007199254740992) (3602879701896397 / 36028797018963968) = 1 / 2"
  "dadd (1 / 2) (3602879701896397 / 36028797018963968) = 5404319552844595 / 9007199254740992"
  "dadd (5404319552844595 / 9007199254740992) (3602879701896397 / 36028797018963968) = 3152519739159347 / 4503599627370496"
  "dadd (3152519739159347 / 4503599627370496) (3602879701896397 / 36028797018963968) = 7205759403792793 / 9007199254740992"
  "dadd (7205759403792793 / 9007199254740992) (3602879701896397 / 36028797018963968) = 2026619832316723 / 2251799813685248"
  "dadd (2026619832316723 / 2251799813685248) (3602879701896397 / 36028797018963968) = 9007199254740991 / 9007199254740992"
  "dadd (9007199254740991 / 9007199254740992) (3602879701896397 / 36028797018963968) = 4953959590107545 / 4503599627370496"
  by (simp_all add: double_eval)

lemma bezier_loop_step:
  "i < 1 \<Longrightarrow> bezier_loop p0 p1 p2 increment i res =
     bezier_loop p0 p1 p2 increment (dadd i increment) (res @ [quadraticBezier p0 p1 p2 i])"
  by (subst bezier_loop.simps) simp

lemma bezier_loop_stop: "\<not> i < 1 \<Longrightarrow> bezier_loop p0 p1 p2 increment i res = Some res"
  by (subst bezier_loop.simps) simp

lemma bezier_loop_default:
  "bezier_loop p0 p1 p2 default_increment 0 res =
     Some (res @ map (quadraticBezier p0 p1 p2) default_params)"
  unfolding default_increment_val default_params_def
  by (simp add: bezier_loop_step bezier_loop_stop accumulate)

lemma fullQuadraticBezier_default_params:
  "fullQuadraticBezier p0 p1 p2 default_increment =
     Some (map (quadraticBezier p0 p1 p2) default_params)"
  by (simp add: fullQuadraticBezier_def bezier_loop_default)









section \<open>Empty outlines\<close>

text \<open>
  C6. When \<open>points\<close> is empty or \<open>contours\<close> is empty, \<open>do_outline\<close> returns (no
  undefined behaviour, no error) and the returned string is one of the two explanatory
  comments, not a \<open>path\<close> element: no path command is produced.
\<close>

theorem do_outline_empty:
  assumes "points = [] \<or> contours = []"
  shows "do_outline hasDebug points tags contours offsetX offsetY generateBezierStatements =
           Some ([Text ''<!-- do outline -->\<newline>''],
                 Comment (if points = [] then ''<!-- font had 0 points -->''
                          else ''<!-- font had 0 contours -->''))
         \<and> map_option (path_cmds \<circ> snd)
              (do_outline hasDebug points tags contours offsetX offsetY generateBezierStatements) = Some []"
  using assms by (auto simp: do_outline_def)

theorem do_outline_empty_witness:
  "do_outline True [\<lparr>ft_x = 3, ft_y = 4\<rparr>] [1] [] (1 / 2) 0 False =
     Some ([Text ''<!-- do outline -->\<newline>''], Comment ''<!-- font had 0 contours -->'')"
  using do_outline_empty [of "[\<lparr>ft_x = 3, ft_y = 4\<rparr>]" "[]" True "[1]" "1 / 2" 0 False]
  by simp

section \<open>The loop body and the loops\<close>

lemma curve_to_Some: "\<exists>cs. curve_to g p c e = Some cs"
  by (simp add: curve_to_def fullQuadraticBezier_default_params)

lemma contour_loop_step:
  "j < npts \<Longrightarrow> contour_loop points tags ox oy g offset npts j = do {
        c \<leftarrow> iteration points tags ox oy g offset npts j;
        cs \<leftarrow> contour_loop points tags ox oy g offset npts (j + 1);
        Some (c @ cs)
      }"
  by (subst contour_loop.simps) simp

lemma contour_loop_stop:
  "\<not> j < npts \<Longrightarrow> contour_loop points tags ox oy g offset npts j = Some []"
  by (subst contour_loop.simps) simp

lemma iteration_unfold:
  assumes "point_at points ox oy (j mod npts + offset) = Some p"
      and "point_at points ox oy ((j + 1) mod npts + offset) = Some n"
      and "point_at points ox oy ((j + 2) mod npts + offset) = Some nn"
      and "vec_at tags (j mod npts + offset) = Some tt"
      and "vec_at tags ((j + 1) mod npts + offset) = Some tn"
      and "vec_at tags ((j + 2) mod npts + offset) = Some tnn"
  shows "iteration points tags ox oy g offset npts j =
     (if \<not> tagbit1 tt \<and> \<not> tagbit1 tn then do {
        x \<leftarrow> halfway_int (fst p) (fst n);
        y \<leftarrow> halfway_int (snd p) (snd n);
        rest \<leftarrow> segment g False True (\<not> tagbit1 tnn) (x, y) n nn;
        Some ((if j = 0 then [MoveTo (AsInt x) (AsInt y)] else []) @ rest)
      }
      else segment g (\<not> tagbit1 tt) (\<not> tagbit1 tn) (\<not> tagbit1 tnn) p n nn)"
  using assms by (simp add: iteration_def Let_def)

text \<open>Reading a run of a vector through a list of results.\<close>

lemma map_upto_Some_length:
  assumes "map f [s..e] = map Some xs"
  shows "int (length xs) = (if s \<le> e then e - s + 1 else 0)"
proof -
  have "length xs = length [s..e]" using assms by (metis length_map)
  then show ?thesis by simp
qed

lemma map_upto_Some_nth:
  assumes "map f [s..e] = map Some xs" and "0 \<le> k" and "k < int (length xs)"
  shows "f (s + k) = Some (xs ! nat k)"
proof -
  have len: "int (length xs) = (if s \<le> e then e - s + 1 else 0)"
    using assms(1) by (rule map_upto_Some_length)
  with assms have k: "s \<le> e" "k \<le> e - s" by (simp_all split: if_splits)
  have "map f [s..e] ! nat k = map Some xs ! nat k"
    using assms(1) by simp
  moreover have "nat k < length [s..e]" using assms k by simp
  moreover have "[s..e] ! nat k = s + k"
    using assms k by (simp add: nth_upto)
  moreover have "nat k < length xs" using assms by simp
  ultimately show ?thesis by simp
qed

lemma rotate_by_index:
  assumes "xs \<noteq> []"
  shows "map (\<lambda>k. xs ! nat ((k + 1) mod int (length xs))) [0..int (length xs) - 1] = tl xs @ [hd xs]"
proof (rule nth_equalityI)
  show "length (map (\<lambda>k. xs ! nat ((k + 1) mod int (length xs))) [0..int (length xs) - 1]) = length (tl xs @ [hd xs])"
    using assms by (cases xs) simp_all
next
  fix i assume "i < length (map (\<lambda>k. xs ! nat ((k + 1) mod int (length xs))) [0..int (length xs) - 1])"
  then have i: "i < length xs" by simp
  obtain y ys where xs: "xs = y # ys" using assms by (cases xs) auto
  have "[0..int (length xs) - 1] ! i = int i" using i by (simp add: nth_upto)
  then have "map (\<lambda>k. xs ! nat ((k + 1) mod int (length xs))) [0..int (length xs) - 1] ! i
      = xs ! nat ((int i + 1) mod int (length xs))"
    using i by simp
  also have "\<dots> = (tl xs @ [hd xs]) ! i"
  proof (cases "Suc i < length xs")
    case True
    then have "(int i + 1) mod int (length xs) = int i + 1" by simp
    then show ?thesis using True xs by (simp add: nth_append nat_add_distrib)
  next
    case False
    with i have e: "Suc i = length xs" by simp
    then have "(int i + 1) mod int (length xs) = 0"
      by (metis Suc_eq_plus1 mod_self of_nat_Suc of_nat_add of_nat_1 add.commute)
    then show ?thesis using e xs by (simp add: nth_append)
  qed
  finally show "map (\<lambda>k. xs ! nat ((k + 1) mod int (length xs))) [0..int (length xs) - 1] ! i = (tl xs @ [hd xs]) ! i" .
qed


lemma polygon_iteration:
  assumes pts: "map (point_at points ox oy) [s..e] = map Some ps"
      and tgs: "map (vec_at tags) [s..e] = map Some ts"
      and on: "list_all tagbit1 ts"
      and j: "0 \<le> j" "j < e - s + 1"
  shows "iteration points tags ox oy g s (e - s + 1) j =
           Some [LineTo (AsInt (fst (ps ! nat ((j + 1) mod (e - s + 1)))))
                        (AsInt (snd (ps ! nat ((j + 1) mod (e - s + 1)))))]"
proof -
  let ?n = "e - s + 1"
  have n: "0 < ?n" using j by simp
  have lp: "int (length ps) = ?n" using map_upto_Some_length [OF pts] n by simp
  have lt: "int (length ts) = ?n" using map_upto_Some_length [OF tgs] n by simp
  have md: "0 \<le> k mod ?n \<and> k mod ?n < ?n" for k
    using pos_mod_sign [OF n, of k] pos_mod_bound [OF n, of k] by blast
  have P: "point_at points ox oy (k mod ?n + s) = Some (ps ! nat (k mod ?n))" for k
    using map_upto_Some_nth [OF pts, of "k mod ?n"] md [of k] lp by (simp add: add.commute)
  have T: "vec_at tags (k mod ?n + s) = Some (ts ! nat (k mod ?n))" for k
    using map_upto_Some_nth [OF tgs, of "k mod ?n"] md [of k] lt by (simp add: add.commute)
  have B: "tagbit1 (ts ! nat (k mod ?n))" for k
  proof -
    have "nat (k mod ?n) < length ts" using md [of k] lt by linarith
    then show ?thesis using on by (simp add: list_all_length)
  qed
  show ?thesis
    by (simp add: iteration_unfold [OF P P P T T T] B segment_def)
qed

lemma polygon_loop:
  assumes pts: "map (point_at points ox oy) [s..e] = map Some ps"
      and tgs: "map (vec_at tags) [s..e] = map Some ts"
      and on: "list_all tagbit1 ts"
      and j: "0 \<le> j"
  shows "contour_loop points tags ox oy g s (e - s + 1) j =
           Some (map (\<lambda>k. LineTo (AsInt (fst (ps ! nat ((k + 1) mod (e - s + 1)))))
                                (AsInt (snd (ps ! nat ((k + 1) mod (e - s + 1))))))
                     [j..e - s])"
  using j
proof (induction "nat (e - s + 1 - j)" arbitrary: j)
  case 0
  then have "\<not> j < e - s + 1" by simp
  moreover from this have "[j..e - s] = []" by simp
  ultimately show ?case by (simp add: contour_loop_stop)
next
  case (Suc m)
  then have lt: "j < e - s + 1" by linarith
  have m: "m = nat (e - s + 1 - (j + 1))" using Suc.hyps(2) by linarith
  have "0 \<le> j + 1" using Suc.prems by simp
  note IH = Suc.hyps(1) [OF m this]
  have up: "[j..e - s] = j # [j + 1..e - s]" using lt by (simp add: upto_rec1)
  show ?case
    by (simp add: contour_loop_step [OF lt] polygon_iteration [OF pts tgs on Suc.prems lt] IH up)
qed

lemma point_at_Some:
  "point_at points ox oy i = Some p \<longleftrightarrow>
     (\<exists>v. vec_at points i = Some v
        \<and> to_int (dadd (double_of_long (ft_x v)) ox) = Some (fst p)
        \<and> to_int (dadd (double_of_long (ft_y v)) oy) = Some (snd p))"
  by (cases p) (auto simp: point_at_def bind_eq_Some_conv)

lemma to_int_Some: "to_int d = Some n \<Longrightarrow> n = trunc_toward_zero d"
  by (auto simp: to_int_def split: if_splits)

lemma iteration_Some:
  assumes "iteration points tags ox oy g offset npts j = Some cs"
  shows "\<exists>p n nn tt tn tnn.
           point_at points ox oy (j mod npts + offset) = Some p
         \<and> point_at points ox oy ((j + 1) mod npts + offset) = Some n
         \<and> point_at points ox oy ((j + 2) mod npts + offset) = Some nn
         \<and> vec_at tags (j mod npts + offset) = Some tt
         \<and> vec_at tags ((j + 1) mod npts + offset) = Some tn
         \<and> vec_at tags ((j + 2) mod npts + offset) = Some tnn"
  using assms by (auto simp: iteration_def Let_def bind_eq_Some_conv)

lemma curve_to_no_MoveTo:
  "curve_to g p c e = Some cs \<Longrightarrow> list_all (\<lambda>c. \<not> is_MoveTo c) cs"
  by (auto simp: curve_to_def svgQuadraticBezier_def list_all_iff split: if_splits)

lemma segment_no_MoveTo:
  "segment g a b c p n nn = Some cs \<Longrightarrow> list_all (\<lambda>c. \<not> is_MoveTo c) cs"
  by (auto simp: segment_def bind_eq_Some_conv split: if_splits dest: curve_to_no_MoveTo)

lemma iteration_no_MoveTo:
  assumes "iteration points tags ox oy g offset npts j = Some cs" and "j \<noteq> 0"
  shows "list_all (\<lambda>c. \<not> is_MoveTo c) cs"
proof -
  from iteration_Some [OF assms(1)] obtain p n nn tt tn tnn where
    l: "point_at points ox oy (j mod npts + offset) = Some p"
       "point_at points ox oy ((j + 1) mod npts + offset) = Some n"
       "point_at points ox oy ((j + 2) mod npts + offset) = Some nn"
       "vec_at tags (j mod npts + offset) = Some tt"
       "vec_at tags ((j + 1) mod npts + offset) = Some tn"
       "vec_at tags ((j + 2) mod npts + offset) = Some tnn"
    by blast
  from assms show ?thesis
    unfolding iteration_unfold [OF l]
    by (auto simp: bind_eq_Some_conv split: if_splits dest: segment_no_MoveTo)
qed

lemma contour_loop_no_MoveTo:
  assumes "contour_loop points tags ox oy g offset npts j = Some cs" and "0 < j"
  shows "list_all (\<lambda>c. \<not> is_MoveTo c) cs"
  using assms
proof (induction "nat (npts - j)" arbitrary: j cs)
  case 0
  then have "\<not> j < npts" by simp
  with 0 show ?case by (simp add: contour_loop_stop)
next
  case (Suc m)
  then have lt: "j < npts" by linarith
  have m: "m = nat (npts - (j + 1))" using Suc.hyps(2) by linarith
  from Suc.prems(1) obtain c cs' where
    c: "iteration points tags ox oy g offset npts j = Some c"
    and cs': "contour_loop points tags ox oy g offset npts (j + 1) = Some cs'"
    and cs: "cs = c @ cs'"
    unfolding contour_loop_step [OF lt] by (auto simp: bind_eq_Some_conv)
  have "list_all (\<lambda>c. \<not> is_MoveTo c) c"
    using iteration_no_MoveTo [OF c] Suc.prems(2) by simp
  moreover have "list_all (\<lambda>c. \<not> is_MoveTo c) cs'"
    using Suc.hyps(1) [OF m cs'] Suc.prems(2) by simp
  ultimately show ?case using cs by simp
qed

lemma vec_at_append1:
  "0 \<le> i \<Longrightarrow> i < int (length a) \<Longrightarrow> vec_at (a @ b) i = vec_at a i"
  by (simp add: vec_at_def nth_append nat_less_iff)

lemma vec_at_append2:
  "0 \<le> i \<Longrightarrow> vec_at (a @ b) (i + int (length a)) = vec_at b i"
  by (simp add: vec_at_def nth_append nat_add_distrib)

lemma point_at_append1:
  "0 \<le> i \<Longrightarrow> i < int (length a) \<Longrightarrow> point_at (a @ b) ox oy i = point_at a ox oy i"
  by (simp add: point_at_def vec_at_append1)

lemma point_at_append2:
  "0 \<le> i \<Longrightarrow> point_at (a @ b) ox oy (i + int (length a)) = point_at b ox oy i"
  by (simp add: point_at_def vec_at_append2)

lemma iteration_append1:
  assumes "0 \<le> offset" and "0 < npts" and "offset + npts \<le> int (length pa)"
      and "length ta = length pa"
  shows "iteration (pa @ pb) (ta @ tb) ox oy g offset npts j = iteration pa ta ox oy g offset npts j"
proof -
  have r: "0 \<le> k mod npts + offset \<and> k mod npts + offset < int (length pa)" for k
    using pos_mod_sign [OF assms(2), of k] pos_mod_bound [OF assms(2), of k] assms(1,3) by linarith
  have P: "point_at (pa @ pb) ox oy (k mod npts + offset) = point_at pa ox oy (k mod npts + offset)" for k
    using r [of k] by (simp add: point_at_append1)
  have T: "vec_at (ta @ tb) (k mod npts + offset) = vec_at ta (k mod npts + offset)" for k
    using r [of k] assms(4) by (simp add: vec_at_append1)
  show ?thesis unfolding iteration_def Let_def P T ..
qed

lemma iteration_append2:
  assumes "0 \<le> offset" and "0 < npts" and "length ta = length pa"
  shows "iteration (pa @ pb) (ta @ tb) ox oy g (offset + int (length pa)) npts j
           = iteration pb tb ox oy g offset npts j"
proof -
  have r: "0 \<le> k mod npts + offset" for k
    using pos_mod_sign [OF assms(2), of k] assms(1) by linarith
  have P: "point_at (pa @ pb) ox oy (k mod npts + (offset + int (length pa)))
             = point_at pb ox oy (k mod npts + offset)" for k
    using point_at_append2 [OF r [of k], of pa pb ox oy] by (simp add: add.assoc)
  have T: "vec_at (ta @ tb) (k mod npts + (offset + int (length pa)))
             = vec_at tb (k mod npts + offset)" for k
    using vec_at_append2 [OF r [of k], of ta tb] assms(3) by (simp add: add.assoc)
  show ?thesis unfolding iteration_def Let_def P T ..
qed

lemma contour_loop_cong:
  assumes "\<And>k. iteration P T ox oy g offset npts k = iteration P' T' ox' oy' g' offset' npts k"
  shows "contour_loop P T ox oy g offset npts j = contour_loop P' T' ox' oy' g' offset' npts j"
proof (induction "nat (npts - j)" arbitrary: j)
  case 0
  then have "\<not> j < npts" by simp
  then show ?case by (simp add: contour_loop_stop)
next
  case (Suc m)
  then have lt: "j < npts" by linarith
  have m: "m = nat (npts - (j + 1))" using Suc.hyps(2) by linarith
  show ?case
    by (simp add: contour_loop_step [OF lt] assms Suc.hyps(1) [OF m])
qed

lemma do_contour_append1:
  assumes "0 \<le> s" and "s \<le> e" and "e < int (length pa)" and "length ta = length pa"
  shows "do_contour (pa @ pb) (ta @ tb) ox oy g s e = do_contour pa ta ox oy g s e"
proof -
  have "contour_loop (pa @ pb) (ta @ tb) ox oy g s (e - s + 1) 0
          = contour_loop pa ta ox oy g s (e - s + 1) 0"
    by (rule contour_loop_cong, rule iteration_append1) (use assms in simp_all)
  moreover have "vec_at (pa @ pb) s = vec_at pa s"
    using assms by (simp add: vec_at_append1)
  ultimately show ?thesis by (simp add: do_contour_def)
qed

lemma do_contour_append2:
  assumes "0 \<le> s" and "s \<le> e" and "length ta = length pa"
  shows "do_contour (pa @ pb) (ta @ tb) ox oy g (s + int (length pa)) (e + int (length pa))
           = do_contour pb tb ox oy g s e"
proof -
  have "contour_loop (pa @ pb) (ta @ tb) ox oy g (s + int (length pa)) (e - s + 1) 0
          = contour_loop pb tb ox oy g s (e - s + 1) 0"
    by (rule contour_loop_cong, rule iteration_append2) (use assms in simp_all)
  moreover have "vec_at (pa @ pb) (s + int (length pa)) = vec_at pb s"
    using assms by (simp add: vec_at_append2)
  ultimately show ?thesis by (simp add: do_contour_def)
qed

lemma contours_loop_append:
  assumes "contiguous s ca n"
  shows "contours_loop P T ox oy g s (ca @ cs) = do {
           a \<leftarrow> contours_loop P T ox oy g s ca;
           b \<leftarrow> contours_loop P T ox oy g n cs;
           Some (a @ b)
         }"
  using assms
proof (induction ca arbitrary: s)
  case Nil
  then show ?case by simp
next
  case (Cons e ca)
  then have "contiguous (e + 1) ca n" by simp
  from Cons.IH [OF this] show ?case
    by (cases "do_contour P T ox oy g s e";
        cases "contours_loop P T ox oy g (e + 1) ca";
        cases "contours_loop P T ox oy g n cs") simp_all
qed

lemma contours_loop_append1:
  assumes "contiguous s ca (int (length pa))" and "0 \<le> s" and "length ta = length pa"
  shows "contours_loop (pa @ pb) (ta @ tb) ox oy g s ca = contours_loop pa ta ox oy g s ca"
  using assms(1,2)
proof (induction ca arbitrary: s)
  case Nil
  then show ?case by simp
next
  case (Cons e ca)
  then have e: "s \<le> e" "e < int (length pa)" and c: "contiguous (e + 1) ca (int (length pa))"
    by simp_all
  have "0 \<le> e + 1" using e Cons.prems(2) by simp
  from Cons.IH [OF c this] do_contour_append1 [OF Cons.prems(2) e assms(3)]
  show ?case by simp
qed

lemma contours_loop_append2:
  assumes "contiguous s cb n" and "0 \<le> s" and "length ta = length pa"
  shows "contours_loop (pa @ pb) (ta @ tb) ox oy g (s + int (length pa))
           (map (\<lambda>e. e + int (length pa)) cb) = contours_loop pb tb ox oy g s cb"
  using assms(1,2)
proof (induction cb arbitrary: s)
  case Nil
  then show ?case by simp
next
  case (Cons e cb)
  then have e: "s \<le> e" and c: "contiguous (e + 1) cb n" by simp_all
  have "0 \<le> e + 1" using e Cons.prems(2) by simp
  from Cons.IH [OF c this] do_contour_append2 [OF Cons.prems(2) e assms(3)]
  show ?case by (simp add: add.assoc add.commute add.left_commute)
qed

lemma contiguous_nonempty: "contiguous 0 cs (int (length ps)) \<Longrightarrow> cs = [] \<longleftrightarrow> ps = []"
  by (cases cs) auto

lemma point_at_grid:
  assumes "point_at points ox oy i = Some p" and "s \<le> i" and "i \<le> e"
  shows "p \<in> set (grid_points points ox oy s e)"
proof -
  from assms(1) obtain v where v: "vec_at points i = Some v"
    and x: "to_int (dadd (double_of_long (ft_x v)) ox) = Some (fst p)"
    and y: "to_int (dadd (double_of_long (ft_y v)) oy) = Some (snd p)"
    unfolding point_at_Some by blast
  from v have "v = points ! nat i" by (simp add: vec_at_def split: if_splits)
  with to_int_Some [OF x] to_int_Some [OF y]
  have eq: "p = (trunc_toward_zero (dadd (double_of_long (ft_x (points ! nat i))) ox),
             trunc_toward_zero (dadd (double_of_long (ft_y (points ! nat i))) oy))"
    by (cases p) simp
  have mem: "i \<in> set [s..e]" using assms(2,3) by simp
  show ?thesis unfolding grid_points_def set_map using eq mem by (rule image_eqI)
qed

lemma midpoints_mem:
  assumes "p \<in> set G" and "q \<in> set G"
      and "halfway_int (fst p) (fst q) = Some a" and "halfway_int (snd p) (snd q) = Some b"
  shows "(a, b) \<in> set (midpoints G)"
proof -
  from assms(3,4) have "a = int_div2 (fst p + fst q)" "b = int_div2 (snd p + snd q)"
    by (auto simp: halfway_int_def split: if_splits)
  with assms(1,2) show ?thesis unfolding midpoints_def by auto
qed

lemma concat_mem:
  assumes "p \<in> set ps" and "c \<in> set qs" and "e \<in> set rs" and "l \<in> set (f p c e)"
  shows "l \<in> set (concat [f p c e. p \<leftarrow> ps, c \<leftarrow> qs, e \<leftarrow> rs])"
  using assms by fastforce

lemma curve_to_emitted:
  assumes "curve_to g p c e = Some cs"
      and "p \<in> set (G @ midpoints G)" and "c \<in> set G" and "e \<in> set (G @ midpoints G)"
  shows "list_all (emitted_from g G) cs"
proof (cases g)
  case True
  with assms show ?thesis by (cases c; cases e) (auto simp: curve_to_def)
next
  case False
  have lines: "\<exists>a b. l = LineTo a b" if "l \<in> set cs" for l
    using assms(1) False that by (auto simp: curve_to_def svgQuadraticBezier_def)
  have "l \<in> set (tessellated_lines G)" if "l \<in> set cs" for l
  proof -
    have "l \<in> set (case curve_to False p c e of None \<Rightarrow> [] | Some cs \<Rightarrow> cs)"
      using assms(1) False that by simp
    from concat_mem [of p "G @ midpoints G" c G e "G @ midpoints G" l
        "\<lambda>p c e. case curve_to False p c e of None \<Rightarrow> [] | Some cs \<Rightarrow> cs", OF assms(2-4) this]
    show ?thesis unfolding tessellated_lines_def .
  qed
  then show ?thesis using False lines by (fastforce simp: list_all_iff)
qed

lemma segment_emitted:
  assumes "segment g a b c p n nn = Some cs"
      and "p \<in> set (G @ midpoints G)" and "n \<in> set G" and "nn \<in> set G"
  shows "list_all (emitted_from g G) cs"
proof -
  have nn': "nn \<in> set (G @ midpoints G)" using assms(4) by simp
  have m: "(x, y) \<in> set (G @ midpoints G)"
    if "halfway_int (fst n) (fst nn) = Some x" "halfway_int (snd n) (snd nn) = Some y" for x y
    using midpoints_mem [OF assms(3,4) that] by simp
  consider (on) "\<not> a \<and> b \<and> \<not> c" | (off) "\<not> a \<and> b \<and> c" | (line) "\<not> a \<and> \<not> b" | (skip) "a"
    by blast
  then show ?thesis
  proof cases
    case on
    with assms(1) have "curve_to g p n nn = Some cs" by (simp add: segment_def)
    then show ?thesis by (rule curve_to_emitted [OF _ assms(2,3) nn'])
  next
    case off
    with assms(1) obtain x y where
      h: "halfway_int (fst n) (fst nn) = Some x" "halfway_int (snd n) (snd nn) = Some y"
      and "curve_to g p n (x, y) = Some cs"
      by (auto simp: segment_def bind_eq_Some_conv)
    then show ?thesis using curve_to_emitted [OF _ assms(2,3) m [OF h]] by blast
  next
    case line
    with assms(1) have "cs = [LineTo (AsInt (fst n)) (AsInt (snd n))]" by (auto simp: segment_def)
    then show ?thesis using assms(3) by (simp add: bexI [of _ n])
  next
    case skip
    with assms(1) have "cs = []" by (auto simp: segment_def)
    then show ?thesis by simp
  qed
qed

lemma iteration_emitted:
  assumes "iteration points tags ox oy g s (e - s + 1) j = Some cs" and "s \<le> e"
  shows "list_all (emitted_from g (grid_points points ox oy s e)) cs"
proof -
  let ?n = "e - s + 1" and ?G = "grid_points points ox oy s e"
  have n: "0 < ?n" using assms(2) by simp
  have idx: "s \<le> k mod ?n + s \<and> k mod ?n + s \<le> e" for k
    using pos_mod_sign [OF n, of k] pos_mod_bound [OF n, of k] by simp
  from iteration_Some [OF assms(1)] obtain p q nn tt tn tnn where
    l: "point_at points ox oy (j mod ?n + s) = Some p"
       "point_at points ox oy ((j + 1) mod ?n + s) = Some q"
       "point_at points ox oy ((j + 2) mod ?n + s) = Some nn"
       "vec_at tags (j mod ?n + s) = Some tt"
       "vec_at tags ((j + 1) mod ?n + s) = Some tn"
       "vec_at tags ((j + 2) mod ?n + s) = Some tnn"
    by blast
  have p: "p \<in> set ?G" using point_at_grid [OF l(1)] idx [of j] by simp
  have q: "q \<in> set ?G" using point_at_grid [OF l(2)] idx [of "j + 1"] by simp
  have nn: "nn \<in> set ?G" using point_at_grid [OF l(3)] idx [of "j + 2"] by simp
  have p': "p \<in> set (?G @ midpoints ?G)" using p by simp
  have m: "(x, y) \<in> set (midpoints ?G)"
    if "halfway_int (fst p) (fst q) = Some x" "halfway_int (snd p) (snd q) = Some y" for x y
    using midpoints_mem [OF p q that] .
  have m': "(x, y) \<in> set (?G @ midpoints ?G)"
    if "halfway_int (fst p) (fst q) = Some x" "halfway_int (snd p) (snd q) = Some y" for x y
    using m [OF that] by simp
  show ?thesis
  proof (cases "\<not> tagbit1 tt \<and> \<not> tagbit1 tn")
    case True
    with assms(1) obtain x y rest where
      h: "halfway_int (fst p) (fst q) = Some x" "halfway_int (snd p) (snd q) = Some y"
      and r: "segment g False True (\<not> tagbit1 tnn) (x, y) q nn = Some rest"
      and cs: "cs = (if j = 0 then [MoveTo (AsInt x) (AsInt y)] else []) @ rest"
      unfolding iteration_unfold [OF l] by (auto simp: bind_eq_Some_conv)
    have "list_all (emitted_from g ?G) rest"
      by (rule segment_emitted [OF r m' [OF h] q nn])
    moreover have "emitted_from g ?G (MoveTo (AsInt x) (AsInt y))"
      using m [OF h] by (simp add: bexI [of _ "(x, y)"])
    ultimately show ?thesis using cs by simp
  next
    case False
    with assms(1) have "segment g (\<not> tagbit1 tt) (\<not> tagbit1 tn) (\<not> tagbit1 tnn) p q nn = Some cs"
      unfolding iteration_unfold [OF l] by (simp split: if_splits)
    then show ?thesis by (rule segment_emitted [OF _ p' q nn])
  qed
qed


lemma contour_loop_emitted:
  assumes "contour_loop points tags ox oy g s (e - s + 1) j = Some cs" and "s \<le> e"
  shows "list_all (emitted_from g (grid_points points ox oy s e)) cs"
  using assms(1)
proof (induction "nat (e - s + 1 - j)" arbitrary: j cs)
  case 0
  then have "\<not> j < e - s + 1" by simp
  with 0 show ?case by (simp add: contour_loop_stop)
next
  case (Suc m)
  then have lt: "j < e - s + 1" by linarith
  have m: "m = nat (e - s + 1 - (j + 1))" using Suc.hyps(2) by linarith
  from Suc.prems obtain c cs' where
    c: "iteration points tags ox oy g s (e - s + 1) j = Some c"
    and cs': "contour_loop points tags ox oy g s (e - s + 1) (j + 1) = Some cs'"
    and cs: "cs = c @ cs'"
    unfolding contour_loop_step [OF lt] by (auto simp: bind_eq_Some_conv)
  from iteration_emitted [OF c assms(2)] Suc.hyps(1) [OF m cs'] cs
  show ?case by simp
qed

lemma do_outline_returned:
  "map_option snd (do_outline hasDebug points tags contours ox oy g) =
     (if points = [] then Some (Comment ''<!-- font had 0 points -->'')
      else if contours = [] then Some (Comment ''<!-- font had 0 contours -->'')
      else map_option Path (contours_loop points tags ox oy g 0 contours))"
  by (cases "contours_loop points tags ox oy g 0 contours") (simp_all add: do_outline_def)


section \<open>One curve: on-curve, off-curve, on-curve\<close>

lemma P2_example:
  "map_option snd (do_outline hasDebug
      [\<lparr>ft_x = 0, ft_y = 0\<rparr>, \<lparr>ft_x = 10, ft_y = 0\<rparr>, \<lparr>ft_x = 20, ft_y = 0\<rparr>] [1, 0, 1] [2] 0 0 True)
   = Some (Path [MoveTo (AsDouble 0) (AsDouble 0), QuadCurveTo 10 0 20 0,
                 LineTo (AsInt 0) (AsInt 0), ClosePath])"
proof -
  have "contours_loop [\<lparr>ft_x = 0, ft_y = 0\<rparr>, \<lparr>ft_x = 10, ft_y = 0\<rparr>, \<lparr>ft_x = 20, ft_y = 0\<rparr>]
          [1, 0, 1] 0 0 True 0 [2]
        = Some [MoveTo (AsDouble 0) (AsDouble 0), QuadCurveTo 10 0 20 0,
                LineTo (AsInt 0) (AsInt 0), ClosePath]"
    by (simp add: outline_eval)
  then show ?thesis by (simp add: do_outline_returned)
qed


text \<open>
  C2, as amended. In a pass of the loop where this point is on the curve, the next is
  off and the one after is on, the builder emits \<open>Q\<close> with the next point as control
  point and the one after as end point when \<open>generateBezierStatements\<close> is set, and
  otherwise one \<open>L\<close> per sample of the tessellated arc through the three points. The
  contour on(0,0), off(10,0), on(20,0) at offset (0,0) with Bezier statements yields
  \<open>M 0,0\<close>, \<open>Q 10,0 20,0\<close>, \<open>L 0,0\<close>, \<open>Z\<close>: the last pass of the loop, from the
  on-curve point (20,0) to the on-curve first point, draws a closing line.
\<close>

theorem on_off_on_curve:
  assumes "point_at points offsetX offsetY (j mod npts + offset) = Some (x, y)"
      and "point_at points offsetX offsetY ((j + 1) mod npts + offset) = Some (nx, ny)"
      and "point_at points offsetX offsetY ((j + 2) mod npts + offset) = Some (nnx, nny)"
      and "vec_at tags (j mod npts + offset) = Some this_tag"
      and "vec_at tags ((j + 1) mod npts + offset) = Some next_tag"
      and "vec_at tags ((j + 2) mod npts + offset) = Some nextnext_tag"
      and "tagbit1 this_tag" and "\<not> tagbit1 next_tag" and "tagbit1 nextnext_tag"
  shows "iteration points tags offsetX offsetY True offset npts j = Some [QuadCurveTo nx ny nnx nny]
       \<and> (\<exists>samples.
             fullQuadraticBezier (Point2D (double_of_int x) (double_of_int y))
                (Point2D (double_of_int nx) (double_of_int ny))
                (Point2D (double_of_int nnx) (double_of_int nny)) default_increment = Some samples
           \<and> iteration points tags offsetX offsetY False offset npts j =
               Some (map (\<lambda>s. LineTo (AsDouble (print_double (p2_x s))) (AsDouble (print_double (p2_y s))))
                          samples))
       \<and> map_option snd (do_outline hasDebug
            [\<lparr>ft_x = 0, ft_y = 0\<rparr>, \<lparr>ft_x = 10, ft_y = 0\<rparr>, \<lparr>ft_x = 20, ft_y = 0\<rparr>] [1, 0, 1] [2] 0 0 True)
          = Some (Path [MoveTo (AsDouble 0) (AsDouble 0), QuadCurveTo 10 0 20 0,
                        LineTo (AsInt 0) (AsInt 0), ClosePath])"
  using assms
  by (simp add: iteration_unfold [OF assms(1-6)] segment_def curve_to_def
        fullQuadraticBezier_default_params svgQuadraticBezier_def P2_example)

theorem on_off_on_curve_witness:
  "iteration [\<lparr>ft_x = 0, ft_y = 0\<rparr>, \<lparr>ft_x = 10, ft_y = 0\<rparr>, \<lparr>ft_x = 20, ft_y = 0\<rparr>] [1, 0, 1] 0 0 True 0 3 0
     = Some [QuadCurveTo 10 0 20 0]"
proof -
  let ?pts = "[\<lparr>ft_x = 0, ft_y = 0\<rparr>, \<lparr>ft_x = 10, ft_y = 0\<rparr>, \<lparr>ft_x = 20, ft_y = 0\<rparr>]"
  have 1: "point_at ?pts 0 0 (0 mod 3 + 0) = Some (0, 0)" by (simp add: outline_eval)
  have 2: "point_at ?pts 0 0 ((0 + 1) mod 3 + 0) = Some (10, 0)" by (simp add: outline_eval)
  have 3: "point_at ?pts 0 0 ((0 + 2) mod 3 + 0) = Some (20, 0)" by (simp add: outline_eval)
  have 4: "vec_at [1, 0, 1 :: 8 word] (0 mod 3 + 0) = Some 1" by (simp add: outline_eval)
  have 5: "vec_at [1, 0, 1 :: 8 word] ((0 + 1) mod 3 + 0) = Some 0" by (simp add: outline_eval)
  have 6: "vec_at [1, 0, 1 :: 8 word] ((0 + 2) mod 3 + 0) = Some 1" by (simp add: outline_eval)
  have 7: "tagbit1 1" by (simp add: outline_eval)
  have 8: "\<not> tagbit1 0" by (simp add: outline_eval)
  from on_off_on_curve [OF 1 2 3 4 5 6 7 8 7] show ?thesis by blast
qed



text \<open>
  The claim C2 as written fails on its own example: the output is not
  \<open>M 0,0\<close>, \<open>Q 10,0 20,0\<close>, \<open>Z\<close>.
\<close>

theorem P2_counterexample:
  "map_option snd (do_outline False
      [\<lparr>ft_x = 0, ft_y = 0\<rparr>, \<lparr>ft_x = 10, ft_y = 0\<rparr>, \<lparr>ft_x = 20, ft_y = 0\<rparr>] [1, 0, 1] [2] 0 0 True)
   \<noteq> Some (Path [MoveTo (AsDouble 0) (AsDouble 0), QuadCurveTo 10 0 20 0, ClosePath])"
  by (simp add: outline_eval)


section \<open>Contours of on-curve points only\<close>

text \<open>
  For a contour whose points are all on the curve, the transformed points being \<open>p0\<close>
  and \<open>ps\<close>, the loop over the points emits an \<open>L\<close> to each point of \<open>ps\<close> in order
  and an \<open>L\<close> back to \<open>p0\<close>, as \<open>int\<close>, and no \<open>Q\<close>. The \<open>M\<close> before them is made
  of the double sums of the first point and the offsets, streamed as doubles, and \<open>p0\<close>
  is the truncation of these sums.
\<close>

lemma polygon_commands:
  assumes "map (point_at points offsetX offsetY) [contour_starti..contour_endi] = map Some (p0 # ps)"
      and "map (vec_at tags) [contour_starti..contour_endi] = map Some ts"
      and "list_all tagbit1 ts"
  shows "\<exists>first. vec_at points contour_starti = Some first
          \<and> p0 = (trunc_toward_zero (dadd (double_of_long (ft_x first)) offsetX),
                  trunc_toward_zero (dadd (double_of_long (ft_y first)) offsetY))
          \<and> do_contour points tags offsetX offsetY generateBezierStatements contour_starti contour_endi =
              Some (MoveTo (AsDouble (print_double (dadd (double_of_long (ft_x first)) offsetX)))
                           (AsDouble (print_double (dadd (double_of_long (ft_y first)) offsetY)))
                    # map (\<lambda>p. LineTo (AsInt (fst p)) (AsInt (snd p))) (ps @ [p0])
                    @ [ClosePath])
          \<and> map_option (filter is_QuadCurveTo)
              (do_contour points tags offsetX offsetY generateBezierStatements contour_starti contour_endi)
              = Some []"
proof -
  let ?n = "contour_endi - contour_starti + 1"
  let ?line = "\<lambda>p. LineTo (AsInt (fst p)) (AsInt (snd p))"
  have len: "int (length (p0 # ps)) = (if contour_starti \<le> contour_endi then ?n else 0)"
    using map_upto_Some_length [OF assms(1)] .
  then have n: "int (length (p0 # ps)) = ?n" by (simp split: if_splits)
  have "point_at points offsetX offsetY (contour_starti + 0) = Some ((p0 # ps) ! nat 0)"
    by (rule map_upto_Some_nth [OF assms(1)]) simp_all
  then have p0: "point_at points offsetX offsetY contour_starti = Some p0" by simp
  then obtain first where first: "vec_at points contour_starti = Some first"
    and x: "to_int (dadd (double_of_long (ft_x first)) offsetX) = Some (fst p0)"
    and y: "to_int (dadd (double_of_long (ft_y first)) offsetY) = Some (snd p0)"
    unfolding point_at_Some by blast
  have eq: "p0 = (trunc_toward_zero (dadd (double_of_long (ft_x first)) offsetX),
                  trunc_toward_zero (dadd (double_of_long (ft_y first)) offsetY))"
    using to_int_Some [OF x] to_int_Some [OF y] by (cases p0) simp
  have "contour_loop points tags offsetX offsetY generateBezierStatements contour_starti ?n 0 =
      Some (map (\<lambda>k. ?line ((p0 # ps) ! nat ((k + 1) mod ?n))) [0..contour_endi - contour_starti])"
    by (rule polygon_loop [OF assms]) simp
  also have "map (\<lambda>k. ?line ((p0 # ps) ! nat ((k + 1) mod ?n))) [0..contour_endi - contour_starti]
      = map ?line (map (\<lambda>k. (p0 # ps) ! nat ((k + 1) mod int (length (p0 # ps)))) [0..int (length (p0 # ps)) - 1])"
    unfolding n by (simp add: comp_def)
  also have "\<dots> = map ?line (ps @ [p0])"
    by (subst rotate_by_index) simp_all
  finally have loop: "contour_loop points tags offsetX offsetY generateBezierStatements contour_starti ?n 0 =
      Some (map ?line (ps @ [p0]))" .
  have dc: "do_contour points tags offsetX offsetY generateBezierStatements contour_starti contour_endi =
              Some (MoveTo (AsDouble (print_double (dadd (double_of_long (ft_x first)) offsetX)))
                           (AsDouble (print_double (dadd (double_of_long (ft_y first)) offsetY)))
                    # map ?line (ps @ [p0]) @ [ClosePath])"
    by (simp add: do_contour_def Let_def first loop)
  have "filter is_QuadCurveTo (map ?line (ps @ [p0])) = []"
    by (simp add: filter_empty_conv)
  with first eq dc show ?thesis by simp
qed

text \<open>
  C5. The claim does not hold of the code: for a contour of on-curve points only, the
  output is not \<open>M\<close> at \<open>p0\<close>, the \<open>L\<close> commands, and a last \<open>L\<close> at the same \<open>p0\<close>.
  The \<open>M\<close> is made of the sums of the first point and the offsets streamed as doubles,
  neither truncated nor written with all their digits, where every \<open>L\<close> (and the
  corrective \<open>M\<close> and every \<open>Q\<close> of other contours) is made of \<open>int\<close> variables. For
  the triangle (0,0), (10,0), (10,10) and the offsets \<open>(0.5, 0)\<close> the output is
  \<open>M 0.5,0\<close>, \<open>L 10,0\<close>, \<open>L 10,10\<close>, \<open>L 0,0\<close>, \<open>Z\<close>: the contour starts at \<open>0.5\<close> and
  comes back to \<open>0\<close>. For the triangle (1234567,0), (1234568,10), (0,10) and the offsets
  \<open>(0, 0)\<close> the output starts with \<open>M 1.23457e+06,0\<close> and comes back with
  \<open>L 1234567,0\<close>.
\<close>

theorem polygon_initial_move:
  "map_option (path_cmds \<circ> snd)
     (do_outline False [\<lparr>ft_x = 0, ft_y = 0\<rparr>, \<lparr>ft_x = 10, ft_y = 0\<rparr>, \<lparr>ft_x = 10, ft_y = 10\<rparr>]
        [1, 1, 1] [2] (1 / 2) 0 True)
   = Some [MoveTo (AsDouble (1 / 2)) (AsDouble 0), LineTo (AsInt 10) (AsInt 0),
           LineTo (AsInt 10) (AsInt 10), LineTo (AsInt 0) (AsInt 0), ClosePath]
   \<and> map_option (path_cmds \<circ> snd)
     (do_outline False [\<lparr>ft_x = 1234567, ft_y = 0\<rparr>, \<lparr>ft_x = 1234568, ft_y = 10\<rparr>, \<lparr>ft_x = 0, ft_y = 10\<rparr>]
        [1, 1, 1] [2] 0 0 True)
   = Some [MoveTo (AsDouble 1234570) (AsDouble 0), LineTo (AsInt 1234568) (AsInt 10),
           LineTo (AsInt 0) (AsInt 10), LineTo (AsInt 1234567) (AsInt 0), ClosePath]"
  by (simp add: outline_eval print_eval)

section \<open>Effects of a call\<close>

text \<open>
  C10, as amended. The string returned by \<open>do_outline\<close> is determined by the points, the
  tags, the contours, the offsets and the mode flag: it is the same whatever the global
  \<open>hasDebug\<close> holds. The call is not free of input and output, however: whenever it
  returns it has first written the line \<open><!-- do outline -->\<close> to \<open>std::cout\<close>, and it
  reads the global \<open>hasDebug\<close>, which decides whether a call on a non-empty outline also
  writes its debug trace to \<open>std::cout\<close>.
\<close>

theorem do_outline_returned_string:
  "map_option snd (do_outline hasDebug points tags contours offsetX offsetY generateBezierStatements) =
   map_option snd (do_outline hasDebug' points tags contours offsetX offsetY generateBezierStatements)
   \<and> map_option (take 1 \<circ> fst)
        (do_outline hasDebug points tags contours offsetX offsetY generateBezierStatements) =
      map_option (\<lambda>r. [Text ''<!-- do outline -->\<newline>''])
        (do_outline hasDebug points tags contours offsetX offsetY generateBezierStatements)
   \<and> (points \<noteq> [] \<and> contours \<noteq> [] \<longrightarrow>
        map_option (\<lambda>r. DebugTrace \<in> set (fst r))
          (do_outline hasDebug points tags contours offsetX offsetY generateBezierStatements) =
        map_option (\<lambda>r. hasDebug)
          (do_outline hasDebug points tags contours offsetX offsetY generateBezierStatements))"
  by (cases "contours_loop points tags offsetX offsetY generateBezierStatements 0 contours")
     (simp_all add: do_outline_def)

theorem do_outline_returned_string_witness:
  "map_option (\<lambda>r. DebugTrace \<in> set (fst r))
     (do_outline True [\<lparr>ft_x = 0, ft_y = 0\<rparr>] [1] [0] 0 0 True) = Some True
   \<and> map_option (\<lambda>r. DebugTrace \<in> set (fst r))
     (do_outline False [\<lparr>ft_x = 0, ft_y = 0\<rparr>] [1] [0] 0 0 True) = Some False"
proof -
  have 1: "do_outline True [\<lparr>ft_x = 0, ft_y = 0\<rparr>] [1] [0] 0 0 True \<noteq> None" by (simp add: outline_eval)
  have 2: "do_outline False [\<lparr>ft_x = 0, ft_y = 0\<rparr>] [1] [0] 0 0 True \<noteq> None" by (simp add: outline_eval)
  from 1 2
    do_outline_returned_string [of True "[\<lparr>ft_x = 0, ft_y = 0\<rparr>]" "[1]" "[0]" 0 0 True False]
    do_outline_returned_string [of False "[\<lparr>ft_x = 0, ft_y = 0\<rparr>]" "[1]" "[0]" 0 0 True False]
  show ?thesis by auto
qed

text \<open>
  The claim C10 as written fails: even on an empty outline the call writes to
  \<open>std::cout\<close>.
\<close>

theorem do_outline_writes_cout:
  "\<not> (\<exists>r. do_outline False [] [] [] 0 0 True = Some ([], r))"
  by (simp add: do_outline_def)

section \<open>Two off-curve points in a row\<close>

text \<open>
  C3. In a pass of the loop over a point \<open>(x, y)\<close> followed by the off-curve point
  \<open>(nx, ny)\<close> and then \<open>(nnx, nny)\<close>, the coordinates being the transformed ones:

  when this point is off the curve as well, the pass continues from the midpoint of
  this and next, computed by \<open>int\<close> addition and division by two (truncating), as from a
  point on the curve: the first pass (\<open>j = 0\<close>) emits an additional \<open>M\<close> at that
  midpoint, and every such pass draws the curve from the midpoint with control point
  next, to the point after next or, if that one is off the curve too, to the midpoint of
  next and the point after;

  when this point is on the curve and the point after next is off the curve, the pass
  draws the curve with control point next that ends at the midpoint of next and the
  point after.

  Drawing a curve is a \<open>Q\<close> with that control point and end point when Bezier statements
  are generated, and one \<open>L\<close> per sample of the tessellated arc otherwise. The sums are
  assumed not to overflow.
\<close>

theorem consecutive_off_curve:
  assumes "point_at points offsetX offsetY (j mod npts + offset) = Some (x, y)"
      and "point_at points offsetX offsetY ((j + 1) mod npts + offset) = Some (nx, ny)"
      and "point_at points offsetX offsetY ((j + 2) mod npts + offset) = Some (nnx, nny)"
      and "vec_at tags (j mod npts + offset) = Some this_tag"
      and "vec_at tags ((j + 1) mod npts + offset) = Some next_tag"
      and "vec_at tags ((j + 2) mod npts + offset) = Some nextnext_tag"
      and "\<not> tagbit1 next_tag"
  shows "(\<not> tagbit1 this_tag \<and> in_int_range (x + nx) \<and> in_int_range (y + ny)
            \<and> (\<not> tagbit1 nextnext_tag \<longrightarrow> in_int_range (nx + nnx) \<and> in_int_range (ny + nny)) \<longrightarrow>
          iteration points tags offsetX offsetY g offset npts j =
            map_option
              (append (if j = 0 then [MoveTo (AsInt (int_div2 (x + nx))) (AsInt (int_div2 (y + ny)))] else []))
              (curve_to g (int_div2 (x + nx), int_div2 (y + ny)) (nx, ny)
                 (if tagbit1 nextnext_tag then (nnx, nny)
                  else (int_div2 (nx + nnx), int_div2 (ny + nny)))))
       \<and> (tagbit1 this_tag \<and> \<not> tagbit1 nextnext_tag
            \<and> in_int_range (nx + nnx) \<and> in_int_range (ny + nny) \<longrightarrow>
          iteration points tags offsetX offsetY g offset npts j =
            curve_to g (x, y) (nx, ny) (int_div2 (nx + nnx), int_div2 (ny + nny)))
       \<and> curve_to True p c e = Some [QuadCurveTo (fst c) (snd c) (fst e) (snd e)]
       \<and> (\<exists>samples.
            fullQuadraticBezier (Point2D (double_of_int (fst p)) (double_of_int (snd p)))
              (Point2D (double_of_int (fst c)) (double_of_int (snd c)))
              (Point2D (double_of_int (fst e)) (double_of_int (snd e))) default_increment = Some samples
            \<and> curve_to False p c e = Some (map (\<lambda>s. LineTo (AsDouble (print_double (p2_x s))) (AsDouble (print_double (p2_y s))))
                          samples))"
  using assms(7)
  by (auto simp: iteration_unfold [OF assms(1-6)] segment_def halfway_int_def curve_to_def
        fullQuadraticBezier_default_params svgQuadraticBezier_def option.map_comp comp_def
        split: option.splits)

theorem consecutive_off_curve_witness:
  "iteration [\<lparr>ft_x = 0, ft_y = 0\<rparr>, \<lparr>ft_x = 10, ft_y = 10\<rparr>, \<lparr>ft_x = 20, ft_y = 0\<rparr>, \<lparr>ft_x = 30, ft_y = 0\<rparr>]
      [1, 0, 0, 1] 0 0 True 0 4 0 = Some [QuadCurveTo 10 10 15 5]
   \<and> iteration [\<lparr>ft_x = 0, ft_y = 0\<rparr>, \<lparr>ft_x = 10, ft_y = 0\<rparr>, \<lparr>ft_x = 10, ft_y = 10\<rparr>]
      [0, 0, 1] 0 0 True 0 3 0 = Some [MoveTo (AsInt 5) (AsInt 0), QuadCurveTo 10 0 10 10]"
proof -
  let ?P = "[\<lparr>ft_x = 0, ft_y = 0\<rparr>, \<lparr>ft_x = 10, ft_y = 10\<rparr>, \<lparr>ft_x = 20, ft_y = 0\<rparr>, \<lparr>ft_x = 30, ft_y = 0\<rparr>]"
  let ?Q = "[\<lparr>ft_x = 0, ft_y = 0\<rparr>, \<lparr>ft_x = 10, ft_y = 0\<rparr>, \<lparr>ft_x = 10, ft_y = 10\<rparr>]"
  have p: "point_at ?P 0 0 (0 mod 4 + 0) = Some (0, 0)"
          "point_at ?P 0 0 ((0 + 1) mod 4 + 0) = Some (10, 10)"
          "point_at ?P 0 0 ((0 + 2) mod 4 + 0) = Some (20, 0)"
    by (simp_all add: outline_eval)
  have t: "vec_at [1, 0, 0, 1 :: 8 word] (0 mod 4 + 0) = Some 1"
          "vec_at [1, 0, 0, 1 :: 8 word] ((0 + 1) mod 4 + 0) = Some 0"
          "vec_at [1, 0, 0, 1 :: 8 word] ((0 + 2) mod 4 + 0) = Some 0"
    by (simp_all add: outline_eval)
  have q: "point_at ?Q 0 0 (0 mod 3 + 0) = Some (0, 0)"
          "point_at ?Q 0 0 ((0 + 1) mod 3 + 0) = Some (10, 0)"
          "point_at ?Q 0 0 ((0 + 2) mod 3 + 0) = Some (10, 10)"
    by (simp_all add: outline_eval)
  have u: "vec_at [0, 0, 1 :: 8 word] (0 mod 3 + 0) = Some 0"
          "vec_at [0, 0, 1 :: 8 word] ((0 + 1) mod 3 + 0) = Some 0"
          "vec_at [0, 0, 1 :: 8 word] ((0 + 2) mod 3 + 0) = Some 1"
    by (simp_all add: outline_eval)
  have b: "tagbit1 1" "\<not> tagbit1 0" by (simp_all add: outline_eval)
  have r: "in_int_range (10 + 20)" "in_int_range (10 + 0)" "in_int_range (0 + 10)" "in_int_range (0 + 0)"
    by (simp_all add: outline_eval)
  have d: "int_div2 (10 + 20) = 15" "int_div2 (10 + 0) = 5" "int_div2 (0 + 10) = 5" "int_div2 (0 + 0) = 0"
    by (simp_all add: outline_eval)
  from consecutive_off_curve [OF p t b(2), of True "(0, 0)" "(10, 10)" "(15, 5)"] b r d
  have 1: "iteration ?P [1, 0, 0, 1] 0 0 True 0 4 0 = Some [QuadCurveTo 10 10 15 5]"
    by simp
  from consecutive_off_curve [OF q u b(2), of True "(5, 0)" "(10, 0)" "(10, 10)"] b r d
  have 2: "iteration ?Q [0, 0, 1] 0 0 True 0 3 0 = Some [MoveTo (AsInt 5) (AsInt 0), QuadCurveTo 10 0 10 10]"
    by simp
  from 1 2 show ?thesis by simp
qed

section \<open>A single leading off-curve point\<close>

text \<open>
  C7. For a contour of at least two points whose first point is off the curve, the
  output starts with the \<open>M\<close> that carries the first point's own coordinates plus the
  offsets (two doubles, streamed as such), uncorrected. When the second point is on the curve, no other \<open>M\<close> follows
  in the contour. When the second point is off the curve too, the next command is the
  corrective \<open>M\<close> at the midpoint of the first two (transformed) points, and it is the
  only other one.
\<close>

theorem leading_off_curve_point:
  assumes "do_contour points tags offsetX offsetY g contour_starti contour_endi = Some cmds"
      and "contour_starti < contour_endi"
      and "vec_at tags contour_starti = Some first_tag" and "\<not> tagbit1 first_tag"
      and "vec_at tags (contour_starti + 1) = Some second_tag"
  shows "\<exists>first x y nx ny rest.
           vec_at points contour_starti = Some first
         \<and> point_at points offsetX offsetY contour_starti = Some (x, y)
         \<and> point_at points offsetX offsetY (contour_starti + 1) = Some (nx, ny)
         \<and> cmds = MoveTo (AsDouble (print_double (dadd (double_of_long (ft_x first)) offsetX)))
                          (AsDouble (print_double (dadd (double_of_long (ft_y first)) offsetY))) # rest
         \<and> (tagbit1 second_tag \<longrightarrow> list_all (\<lambda>c. \<not> is_MoveTo c) rest)
         \<and> (\<not> tagbit1 second_tag \<longrightarrow>
              (\<exists>rest'. rest = MoveTo (AsInt (int_div2 (x + nx))) (AsInt (int_div2 (y + ny))) # rest'
                     \<and> list_all (\<lambda>c. \<not> is_MoveTo c) rest'))"
proof -
  let ?n = "contour_endi - contour_starti + 1"
  have n: "1 < ?n" using assms(2) by simp
  from assms(1) obtain first body where
    first: "vec_at points contour_starti = Some first"
    and body: "contour_loop points tags offsetX offsetY g contour_starti ?n 0 = Some body"
    and cmds: "cmds = MoveTo (AsDouble (print_double (dadd (double_of_long (ft_x first)) offsetX)))
                          (AsDouble (print_double (dadd (double_of_long (ft_y first)) offsetY)))
                   # body @ [ClosePath]"
    by (auto simp: do_contour_def Let_def bind_eq_Some_conv)
  have "0 < ?n" using n by simp
  from body obtain c cs where
    c: "iteration points tags offsetX offsetY g contour_starti ?n 0 = Some c"
    and cs: "contour_loop points tags offsetX offsetY g contour_starti ?n (0 + 1) = Some cs"
    and b: "body = c @ cs"
    unfolding contour_loop_step [OF \<open>0 < ?n\<close>] by (auto simp: bind_eq_Some_conv)
  have cs_ok: "list_all (\<lambda>c. \<not> is_MoveTo c) cs"
    using contour_loop_no_MoveTo [OF cs] by simp
  from iteration_Some [OF c] obtain p q nn tt tn tnn where
    l: "point_at points offsetX offsetY (0 mod ?n + contour_starti) = Some p"
       "point_at points offsetX offsetY ((0 + 1) mod ?n + contour_starti) = Some q"
       "point_at points offsetX offsetY ((0 + 2) mod ?n + contour_starti) = Some nn"
       "vec_at tags (0 mod ?n + contour_starti) = Some tt"
       "vec_at tags ((0 + 1) mod ?n + contour_starti) = Some tn"
       "vec_at tags ((0 + 2) mod ?n + contour_starti) = Some tnn"
    by blast
  have m1: "(0 + 1) mod ?n = 1" using n by simp
  have tt: "tt = first_tag" using l(4) assms(3) by simp
  have tn: "tn = second_tag" using l(5) assms(5) unfolding m1 by (simp add: add.commute)
  have p: "point_at points offsetX offsetY contour_starti = Some (fst p, snd p)"
    using l(1) by simp
  have q: "point_at points offsetX offsetY (contour_starti + 1) = Some (fst q, snd q)"
    using l(2) unfolding m1 by (simp add: add.commute)
  have on: "tagbit1 second_tag \<Longrightarrow> c = []"
    using c assms(4) unfolding iteration_unfold [OF l] tt tn by (simp add: segment_def)
  have off: "\<exists>r. c = MoveTo (AsInt (int_div2 (fst p + fst q))) (AsInt (int_div2 (snd p + snd q))) # r
                \<and> list_all (\<lambda>c. \<not> is_MoveTo c) r" if "\<not> tagbit1 second_tag"
    using c assms(4) that unfolding iteration_unfold [OF l] tt tn
    by (auto simp: bind_eq_Some_conv halfway_int_def split: if_splits dest: segment_no_MoveTo)
  show ?thesis
    using first p q cmds b cs_ok on off by (intro exI [of _ first] exI [of _ "fst p"] exI [of _ "snd p"] exI [of _ "fst q"] exI [of _ "snd q"] exI [of _ "body @ [ClosePath]"]) auto
qed

theorem leading_off_curve_point_witness:
  "\<exists>rest. do_contour [\<lparr>ft_x = 0, ft_y = 0\<rparr>, \<lparr>ft_x = 10, ft_y = 0\<rparr>, \<lparr>ft_x = 10, ft_y = 10\<rparr>] [0, 1, 1]
             0 0 True 0 2 = Some (MoveTo (AsDouble 0) (AsDouble 0) # rest)
         \<and> list_all (\<lambda>c. \<not> is_MoveTo c) rest"
proof -
  let ?P = "[\<lparr>ft_x = 0, ft_y = 0\<rparr>, \<lparr>ft_x = 10, ft_y = 0\<rparr>, \<lparr>ft_x = 10, ft_y = 10\<rparr>]"
  have 1: "do_contour ?P [0, 1, 1] 0 0 True 0 2 =
             Some [MoveTo (AsDouble 0) (AsDouble 0), LineTo (AsInt 10) (AsInt 10),
                   QuadCurveTo 0 0 10 0, ClosePath]"
    by (simp add: outline_eval)
  have 2: "(0 :: int) < 2" by simp
  have 3: "vec_at [0, 1, 1 :: 8 word] 0 = Some 0" by (simp add: outline_eval)
  have 4: "\<not> tagbit1 0" by (simp add: outline_eval)
  have 5: "vec_at [0, 1, 1 :: 8 word] (0 + 1) = Some 1" by (simp add: outline_eval)
  have 6: "tagbit1 1" by (simp add: outline_eval)
  from leading_off_curve_point [OF 1 2 3 4 5] 6 show ?thesis
    unfolding 1 by auto
qed

section \<open>Independence of the contours\<close>

text \<open>
  C9. For two well-formed outlines, the outline made of the points and tags of the first
  followed by those of the second, with the contours of the first followed by those of
  the second moved up by the number of points of the first, is converted to the
  commands of the first followed by the commands of the second; one conversion has
  undefined behaviour exactly when one of the two others has.
\<close>

theorem contour_independence:
  assumes "well_formed pa ta ca" and "well_formed pb tb cb"
  shows "map_option (path_cmds \<circ> snd)
           (do_outline hasDebug (pa @ pb) (ta @ tb) (ca @ map (\<lambda>e. e + int (length pa)) cb)
              offsetX offsetY g)
         = do {
             a \<leftarrow> do_outline hasDebug pa ta ca offsetX offsetY g;
             b \<leftarrow> do_outline hasDebug pb tb cb offsetX offsetY g;
             Some (path_cmds (snd a) @ path_cmds (snd b))
           }"
proof -
  from assms have la: "length ta = length pa" and ca: "contiguous 0 ca (int (length pa))"
    and lb: "length tb = length pb" and cb: "contiguous 0 cb (int (length pb))"
    by (simp_all add: well_formed_def)
  have ea: "ca = [] \<longleftrightarrow> pa = []" using contiguous_nonempty [OF ca] .
  have eb: "cb = [] \<longleftrightarrow> pb = []" using contiguous_nonempty [OF cb] .
  let ?A = "contours_loop pa ta offsetX offsetY g 0 ca"
  let ?B = "contours_loop pb tb offsetX offsetY g 0 cb"
  have A: "map_option (path_cmds \<circ> snd) (do_outline hasDebug pa ta ca offsetX offsetY g) = ?A"
    using ea by (cases ?A) (auto simp: do_outline_def)
  have B: "map_option (path_cmds \<circ> snd) (do_outline hasDebug pb tb cb offsetX offsetY g) = ?B"
    using eb by (cases ?B) (auto simp: do_outline_def)
  have "contours_loop (pa @ pb) (ta @ tb) offsetX offsetY g 0 (ca @ map (\<lambda>e. e + int (length pa)) cb)
      = do { a \<leftarrow> contours_loop (pa @ pb) (ta @ tb) offsetX offsetY g 0 ca;
             b \<leftarrow> contours_loop (pa @ pb) (ta @ tb) offsetX offsetY g (int (length pa))
                    (map (\<lambda>e. e + int (length pa)) cb);
             Some (a @ b) }"
    by (rule contours_loop_append [OF ca])
  also have "contours_loop (pa @ pb) (ta @ tb) offsetX offsetY g 0 ca = ?A"
    by (rule contours_loop_append1 [OF ca _ la]) simp
  also have "contours_loop (pa @ pb) (ta @ tb) offsetX offsetY g (int (length pa))
                    (map (\<lambda>e. e + int (length pa)) cb) = ?B"
    using contours_loop_append2 [OF cb _ la, of pb tb offsetX offsetY g] by simp
  finally have AB: "contours_loop (pa @ pb) (ta @ tb) offsetX offsetY g 0 (ca @ map (\<lambda>e. e + int (length pa)) cb)
      = do { a \<leftarrow> ?A; b \<leftarrow> ?B; Some (a @ b) }" .
  have L: "map_option (path_cmds \<circ> snd)
           (do_outline hasDebug (pa @ pb) (ta @ tb) (ca @ map (\<lambda>e. e + int (length pa)) cb)
              offsetX offsetY g) = do { a \<leftarrow> ?A; b \<leftarrow> ?B; Some (a @ b) }"
    using ea eb unfolding AB [symmetric]
    by (cases "contours_loop (pa @ pb) (ta @ tb) offsetX offsetY g 0 (ca @ map (\<lambda>e. e + int (length pa)) cb)")
       (auto simp: do_outline_def)
  have R: "do {
             a \<leftarrow> do_outline hasDebug pa ta ca offsetX offsetY g;
             b \<leftarrow> do_outline hasDebug pb tb cb offsetX offsetY g;
             Some (path_cmds (snd a) @ path_cmds (snd b))
           } = do { a \<leftarrow> ?A; b \<leftarrow> ?B; Some (a @ b) }"
    unfolding A [symmetric] B [symmetric]
    by (cases "do_outline hasDebug pa ta ca offsetX offsetY g";
        cases "do_outline hasDebug pb tb cb offsetX offsetY g") simp_all
  show ?thesis unfolding L R ..
qed

theorem contour_independence_witness:
  "map_option (path_cmds \<circ> snd)
     (do_outline False
        ([\<lparr>ft_x = 0, ft_y = 0\<rparr>, \<lparr>ft_x = 10, ft_y = 0\<rparr>, \<lparr>ft_x = 20, ft_y = 0\<rparr>] @ [\<lparr>ft_x = 5, ft_y = 5\<rparr>, \<lparr>ft_x = 7, ft_y = 5\<rparr>])
        ([1, 0, 1] @ [1, 1])
        ([2] @ map (\<lambda>e. e + int (length [\<lparr>ft_x = 0, ft_y = 0\<rparr>, \<lparr>ft_x = 10, ft_y = 0\<rparr>, \<lparr>ft_x = 20, ft_y = 0\<rparr>])) [1])
        0 0 True)
   = Some [MoveTo (AsDouble 0) (AsDouble 0), QuadCurveTo 10 0 20 0, LineTo (AsInt 0) (AsInt 0), ClosePath,
           MoveTo (AsDouble 5) (AsDouble 5), LineTo (AsInt 7) (AsInt 5), LineTo (AsInt 5) (AsInt 5), ClosePath]"
proof -
  let ?A = "[\<lparr>ft_x = 0, ft_y = 0\<rparr>, \<lparr>ft_x = 10, ft_y = 0\<rparr>, \<lparr>ft_x = 20, ft_y = 0\<rparr>]"
  let ?B = "[\<lparr>ft_x = 5, ft_y = 5\<rparr>, \<lparr>ft_x = 7, ft_y = 5\<rparr>]"
  have a: "well_formed ?A [1, 0, 1] [2]" by (simp add: well_formed_def)
  have b: "well_formed ?B [1, 1] [1]" by (simp add: well_formed_def)
  have r: "do {
             a \<leftarrow> do_outline False ?A [1, 0, 1] [2] 0 0 True;
             b \<leftarrow> do_outline False ?B [1, 1] [1] 0 0 True;
             Some (path_cmds (snd a) @ path_cmds (snd b))
           } = Some [MoveTo (AsDouble 0) (AsDouble 0), QuadCurveTo 10 0 20 0, LineTo (AsInt 0) (AsInt 0), ClosePath,
             MoveTo (AsDouble 5) (AsDouble 5), LineTo (AsInt 7) (AsInt 5), LineTo (AsInt 5) (AsInt 5), ClosePath]"
    by (simp add: outline_eval print_eval)
  from contour_independence [OF a b, of False 0 0 True] show ?thesis
    unfolding r .
qed

section \<open>The coordinates that are emitted\<close>

text \<open>
  C1, as amended. For every contour, offset pair and mode flag, the output for the
  contour is an initial \<open>M\<close>, the commands of the loop over the points, and \<open>Z\<close>.
  Every coordinate that the loop reads is the truncation to \<open>int\<close> of the double sum
  of a point coordinate and the offset. With Bezier statements, every \<open>L\<close> and every
  control point of a \<open>Q\<close> is such a truncated point, every end point of a \<open>Q\<close> is such
  a point or the \<open>int\<close> midpoint of two of them, and a corrective \<open>M\<close> is such a
  midpoint; all are streamed as \<open>int\<close>. Without Bezier statements the loop emits no
  \<open>Q\<close>, and an \<open>L\<close> is either such a truncated point, streamed as \<open>int\<close>, or a line
  sample, which is not truncated: it is a sample that the tessellator computes from
  such points and midpoints, streamed as two doubles (6 significant digits). Nothing
  is said of the coordinates of the initial \<open>M\<close>.
\<close>

theorem emitted_coordinates:
  assumes "do_contour points tags offsetX offsetY g contour_starti contour_endi = Some cmds"
  shows "\<exists>m body.
           cmds = m # body @ [ClosePath] \<and> is_MoveTo m
         \<and> list_all (emitted_from g (grid_points points offsetX offsetY contour_starti contour_endi)) body"
proof -
  let ?n = "contour_endi - contour_starti + 1"
  from assms obtain first body where
    first: "vec_at points contour_starti = Some first"
    and body: "contour_loop points tags offsetX offsetY g contour_starti ?n 0 = Some body"
    and cmds: "cmds = MoveTo (AsDouble (print_double (dadd (double_of_long (ft_x first)) offsetX)))
                          (AsDouble (print_double (dadd (double_of_long (ft_y first)) offsetY)))
                   # body @ [ClosePath]"
    by (auto simp: do_contour_def Let_def bind_eq_Some_conv)
  have "list_all (emitted_from g (grid_points points offsetX offsetY contour_starti contour_endi)) body"
  proof (cases "contour_starti \<le> contour_endi")
    case True
    from contour_loop_emitted [OF body True] show ?thesis .
  next
    case False
    then have "\<not> 0 < ?n" by simp
    with body have "body = []" by (simp add: contour_loop_stop)
    then show ?thesis by simp
  qed
  with cmds show ?thesis by simp
qed

theorem emitted_coordinates_witness:
  "do_contour [\<lparr>ft_x = 0, ft_y = 0\<rparr>, \<lparr>ft_x = 10, ft_y = 10\<rparr>, \<lparr>ft_x = 20, ft_y = 0\<rparr>, \<lparr>ft_x = 30, ft_y = 0\<rparr>]
      [1, 0, 0, 1] (1 / 2) (- (1 / 2)) True 0 3
     = Some [MoveTo (AsDouble (1 / 2)) (AsDouble (- (1 / 2))), QuadCurveTo 10 9 15 4,
             QuadCurveTo 20 0 30 0, LineTo (AsInt 0) (AsInt 0), ClosePath]
   \<and> list_all
     (emitted_from True
        (grid_points [\<lparr>ft_x = 0, ft_y = 0\<rparr>, \<lparr>ft_x = 10, ft_y = 10\<rparr>, \<lparr>ft_x = 20, ft_y = 0\<rparr>, \<lparr>ft_x = 30, ft_y = 0\<rparr>]
           (1 / 2) (- (1 / 2)) 0 3))
     [QuadCurveTo 10 9 15 4, QuadCurveTo 20 0 30 0, LineTo (AsInt 0) (AsInt 0)]"
proof -
  let ?P = "[\<lparr>ft_x = 0, ft_y = 0\<rparr>, \<lparr>ft_x = 10, ft_y = 10\<rparr>, \<lparr>ft_x = 20, ft_y = 0\<rparr>, \<lparr>ft_x = 30, ft_y = 0\<rparr>]"
  have 1: "do_contour ?P [1, 0, 0, 1] (1 / 2) (- (1 / 2)) True 0 3 =
             Some [MoveTo (AsDouble (1 / 2)) (AsDouble (- (1 / 2))), QuadCurveTo 10 9 15 4,
                   QuadCurveTo 20 0 30 0, LineTo (AsInt 0) (AsInt 0), ClosePath]"
    by (simp add: outline_eval print_eval)
  from emitted_coordinates [OF 1] 1 show ?thesis by auto
qed

text \<open>
  The claim C1 as written fails. With the offsets \<open>(0.5, 0)\<close> the initial \<open>M\<close> of the
  contour of the single point (0,0) has the x coordinate \<open>0.5\<close>, whose truncation is
  \<open>0\<close>. Without Bezier statements, the second line sample of the arc from (0,0) over
  (10,10) to (20,0) is written \<open>L 2 1.8\<close>: \<open>1.8\<close> is not an integer. With Bezier
  statements, the first \<open>Q\<close> of the contour on(0,0), off(10,10), off(20,0), on(30,0)
  ends at the midpoint \<open>(15, 5)\<close>, and \<open>15\<close> is not the truncated x coordinate of any
  point of the contour.
\<close>

theorem emitted_coordinates_counterexample:
  "map_option (hd \<circ> path_cmds \<circ> snd)
     (do_outline False [\<lparr>ft_x = 0, ft_y = 0\<rparr>] [1] [0] (1 / 2) 0 True)
     = Some (MoveTo (AsDouble (1 / 2)) (AsDouble 0))
   \<and> (1 / 2 :: rat) \<noteq> of_int (trunc_toward_zero (dadd (double_of_long 0) (1 / 2)))
   \<and> map_option (\<lambda>r. path_cmds (snd r) ! 2)
     (do_outline False [\<lparr>ft_x = 0, ft_y = 0\<rparr>, \<lparr>ft_x = 10, ft_y = 10\<rparr>, \<lparr>ft_x = 20, ft_y = 0\<rparr>]
        [1, 0, 1] [2] 0 0 False)
     = Some (LineTo (AsDouble 2) (AsDouble (9 / 5)))
   \<and> (9 / 5 :: rat) \<noteq> of_int \<lfloor>9 / 5 :: rat\<rfloor>
   \<and> map_option (\<lambda>r. path_cmds (snd r) ! 1)
     (do_outline False
        [\<lparr>ft_x = 0, ft_y = 0\<rparr>, \<lparr>ft_x = 10, ft_y = 10\<rparr>, \<lparr>ft_x = 20, ft_y = 0\<rparr>, \<lparr>ft_x = 30, ft_y = 0\<rparr>]
        [1, 0, 0, 1] [3] 0 0 True)
     = Some (QuadCurveTo 10 10 15 5)
   \<and> 15 \<notin> set (map fst (grid_points
        [\<lparr>ft_x = 0, ft_y = 0\<rparr>, \<lparr>ft_x = 10, ft_y = 10\<rparr>, \<lparr>ft_x = 20, ft_y = 0\<rparr>, \<lparr>ft_x = 30, ft_y = 0\<rparr>]
        0 0 0 3))"
proof -
  have 1: "map_option (hd \<circ> path_cmds \<circ> snd)
     (do_outline False [\<lparr>ft_x = 0, ft_y = 0\<rparr>] [1] [0] (1 / 2) 0 True)
     = Some (MoveTo (AsDouble (1 / 2)) (AsDouble 0))"
    by (simp add: outline_eval print_eval)
  have 2: "(1 / 2 :: rat) \<noteq> of_int (trunc_toward_zero (dadd (double_of_long 0) (1 / 2)))"
    by (simp add: outline_eval)
  have 3: "map_option (\<lambda>r. path_cmds (snd r) ! 2)
     (do_outline False [\<lparr>ft_x = 0, ft_y = 0\<rparr>, \<lparr>ft_x = 10, ft_y = 10\<rparr>, \<lparr>ft_x = 20, ft_y = 0\<rparr>]
        [1, 0, 1] [2] 0 0 False)
     = Some (LineTo
         (AsDouble (print_double (p2_x (quadraticBezier (Point2D 0 0) (Point2D 10 10) (Point2D 20 0)
            (3602879701896397 / 36028797018963968)))))
         (AsDouble (print_double (p2_y (quadraticBezier (Point2D 0 0) (Point2D 10 10) (Point2D 20 0)
            (3602879701896397 / 36028797018963968))))))"
    by (simp add: outline_eval fullQuadraticBezier_default_params default_params_def
          svgQuadraticBezier_def)
  have 4: "quadraticBezier (Point2D 0 0) (Point2D 10 10) (Point2D 20 0)
             (3602879701896397 / 36028797018963968)
           = Point2D (4503599627370497 / 2251799813685248) (4053239664633447 / 2251799813685248)"
    by (simp add: quadraticBezier_def double_eval)
  have 5: "print_double (4503599627370497 / 2251799813685248) = 2"
          "print_double (4053239664633447 / 2251799813685248) = 9 / 5"
    by (simp_all add: print_eval)
  have 6: "(9 / 5 :: rat) \<noteq> of_int \<lfloor>9 / 5 :: rat\<rfloor>"
    by (simp add: floor_rat_numeral)
  have 7: "map_option (\<lambda>r. path_cmds (snd r) ! 1)
     (do_outline False
        [\<lparr>ft_x = 0, ft_y = 0\<rparr>, \<lparr>ft_x = 10, ft_y = 10\<rparr>, \<lparr>ft_x = 20, ft_y = 0\<rparr>, \<lparr>ft_x = 30, ft_y = 0\<rparr>]
        [1, 0, 0, 1] [3] 0 0 True)
     = Some (QuadCurveTo 10 10 15 5)"
    by (simp add: outline_eval)
  have 8: "15 \<notin> set (map fst (grid_points
        [\<lparr>ft_x = 0, ft_y = 0\<rparr>, \<lparr>ft_x = 10, ft_y = 10\<rparr>, \<lparr>ft_x = 20, ft_y = 0\<rparr>, \<lparr>ft_x = 30, ft_y = 0\<rparr>]
        0 0 0 3))"
    by (simp add: grid_points_def upto.simps outline_eval)
  from 1 2 3 6 7 8 show ?thesis unfolding 4 by (simp add: 5)
qed

section \<open>Translation by the offsets\<close>

text \<open>
  Whole numbers meet no truncation boundary: for whole-number offsets and a translation
  by whole numbers, of either sign, the truncated coordinates of a point move by the
  translation, as the first condition of \<open>no_boundary\<close> asks, whenever the sums fit an
  \<open>int\<close>.
\<close>

lemma round_half_even_of_int: "round_half_even (of_int m) = m"
  by (simp add: round_half_even_def)

lemma round_double_of_int:
  assumes "\<bar>n\<bar> < 2 ^ 53"
  shows "round_double (of_int n) = of_int n"
proof (cases "n = 0")
  case True
  then show ?thesis by (simp add: round_double_def)
next
  case False
  define a where "a = \<bar>n\<bar>"
  have a: "0 < a" "a < 2 ^ 53" using False assms by (simp_all add: a_def)
  have ab: "\<bar>of_int n :: rat\<bar> = of_int a" by (simp add: a_def)
  have ge1: "(1 :: rat) \<le> of_int a" using a(1) by simp
  have ex: "exponent (of_int a) = bitlen a - 1" using ge1 by (simp add: exponent_def)
  have b1: "1 \<le> bitlen a"
    using a(1) bitlen_eq_zero_iff [of a] bitlen_nonneg [of a] by linarith
  have b2: "bitlen a \<le> 53"
    using a(2) by (simp add: bitlen_le_iff_power)
  define k where "k = nat (53 - bitlen a)"
  have u: "pow2 (exponent (of_int a) - 52) = 1 / 2 ^ k"
  proof (cases "bitlen a = 53")
    case True
    then show ?thesis by (simp add: ex pow2_def k_def)
  next
    case False
    with b2 have "bitlen a - 1 - 52 < 0" by simp
    moreover have "nat (- (bitlen a - 1 - 52)) = k" by (simp add: k_def)
    ultimately show ?thesis by (simp add: ex pow2_def)
  qed
  have q: "(of_int a :: rat) / (1 / 2 ^ k) = of_int (a * 2 ^ k)" by simp
  have "round_double (of_int n) = sgn (of_int n) * of_int (a * 2 ^ k) * (1 / 2 ^ k)"
    using False unfolding round_double_def Let_def ab u q round_half_even_of_int by simp
  also have "\<dots> = sgn (of_int n) * (of_int a :: rat)" by simp
  also have "\<dots> = of_int n" unfolding ab [symmetric] by (simp add: sgn_mult_abs)
  finally show ?thesis .
qed

lemma to_int_of_int: "in_int_range m \<Longrightarrow> to_int (of_int m) = Some m"
  by (simp add: to_int_def trunc_toward_zero_def)

lemma in_int_range_double: "in_int_range m \<Longrightarrow> \<bar>m\<bar> < 2 ^ 53"
  by (simp add: in_int_range_def abs_less_iff)

lemma point_at_whole:
  assumes "vec_at points i = Some p" and "\<bar>ft_x p\<bar> < 2 ^ 53" and "\<bar>ft_y p\<bar> < 2 ^ 53"
      and "in_int_range (ft_x p + ox)" and "in_int_range (ft_y p + oy)"
  shows "point_at points (of_int ox) (of_int oy) i = Some (ft_x p + ox, ft_y p + oy)"
proof -
  have x: "dadd (double_of_long (ft_x p)) (of_int ox) = of_int (ft_x p + ox)"
    using round_double_of_int [OF assms(2)] round_double_of_int [OF in_int_range_double [OF assms(4)]]
    by (simp add: dadd_def double_of_long_def)
  have y: "dadd (double_of_long (ft_y p)) (of_int oy) = of_int (ft_y p + oy)"
    using round_double_of_int [OF assms(3)] round_double_of_int [OF in_int_range_double [OF assms(5)]]
    by (simp add: dadd_def double_of_long_def)
  show ?thesis
    by (simp add: point_at_def assms(1) x y to_int_of_int [OF assms(4)] to_int_of_int [OF assms(5)]
          del: of_int_add)
qed

lemma point_at_translated_whole:
  assumes "vec_at points i = Some p" and "\<bar>ft_x p\<bar> < 2 ^ 53" and "\<bar>ft_y p\<bar> < 2 ^ 53"
      and "\<bar>ox + dx\<bar> < 2 ^ 53" and "\<bar>oy + dy\<bar> < 2 ^ 53"
      and "in_int_range (ft_x p + ox)" and "in_int_range (ft_y p + oy)"
      and "in_int_range (ft_x p + ox + dx)" and "in_int_range (ft_y p + oy + dy)"
  shows "point_at points (dadd (of_int ox) (of_int dx)) (dadd (of_int oy) (of_int dy)) i =
           map_option (\<lambda>q. (fst q + \<lfloor>of_int dx :: rat\<rfloor>, snd q + \<lfloor>of_int dy :: rat\<rfloor>))
             (point_at points (of_int ox) (of_int oy) i)"
proof -
  have ox: "dadd (of_int ox) (of_int dx) = of_int (ox + dx)"
    using round_double_of_int [OF assms(4)] by (simp add: dadd_def)
  have oy: "dadd (of_int oy) (of_int dy) = of_int (oy + dy)"
    using round_double_of_int [OF assms(5)] by (simp add: dadd_def)
  have a: "in_int_range (ft_x p + (ox + dx))" "in_int_range (ft_y p + (oy + dy))"
    using assms(8,9) by (simp_all add: add.assoc)
  show ?thesis
    unfolding ox oy point_at_whole [OF assms(1-3) a] point_at_whole [OF assms(1-3) assms(6,7)]
    by (simp add: add.assoc)
qed

lemma int_div2_keeps_side: "keeps_side s d \<Longrightarrow> int_div2 (s + 2 * d) = int_div2 s + d"
proof -
  assume k: "keeps_side s d"
  have a: "(s + 2 * d) div 2 = s div 2 + d" by simp
  have b: "(- s - 2 * d) div 2 = (- s) div 2 - d" by linarith
  have c: "- ((- x) div 2) = x div 2" if "even x" for x :: int
    using that by (elim evenE) simp
  have e: "even (s + 2 * d) \<longleftrightarrow> even s" by simp
  consider (even) "even s" | (pos) "0 \<le> s" "0 \<le> s + 2 * d" | (neg) "s \<le> 0" "s + 2 * d \<le> 0" "odd s"
    using k unfolding keeps_side_def by blast
  then show ?thesis
  proof cases
    case even
    then have "int_div2 s = s div 2" "int_div2 (s + 2 * d) = (s + 2 * d) div 2"
      using c [of s] c [of "s + 2 * d"] e by (simp_all add: int_div2_def)
    then show ?thesis using a by simp
  next
    case pos
    then show ?thesis using a by (simp add: int_div2_def)
  next
    case neg
    then have "s < 0" "s + 2 * d < 0" by presburger+
    then show ?thesis using b by (simp add: int_div2_def)
  qed
qed

lemma halfway_int_shifted:
  assumes "halfway_int a b = Some m" and "halfway_int (a + d) (b + d) = Some m'"
      and "keeps_side (a + b) d"
  shows "m' = m + d"
proof -
  have e: "a + d + (b + d) = a + b + 2 * d" by simp
  from assms(1) have m: "m = int_div2 (a + b)"
    by (simp add: halfway_int_def split: if_splits)
  from assms(2) have "m' = int_div2 (a + b + 2 * d)"
    unfolding halfway_int_def e by (simp split: if_splits)
  then show ?thesis unfolding m int_div2_keeps_side [OF assms(3)] .
qed

lemma curve_to_shifted:
  assumes "curve_to g p c e = Some cs"
      and "curve_to g p' (fst c + dx, snd c + dy) (fst e + dx, snd e + dy) = Some cs'"
  shows "list_all2 (shifted dx dy) cs cs'"
  using assms
  by (cases g)
     (auto simp: curve_to_def fullQuadraticBezier_default_params svgQuadraticBezier_def
        list_all2_map1 list_all2_map2 list_all2_same)

lemma segment_shifted:
  assumes "segment g a b c p n nn = Some cs"
      and "segment g a b c p' (fst n + dx, snd n + dy) (fst nn + dx, snd nn + dy) = Some cs'"
      and "b \<and> c \<longrightarrow> keeps_side (fst n + fst nn) dx \<and> keeps_side (snd n + snd nn) dy"
  shows "list_all2 (shifted dx dy) cs cs'"
proof -
  consider (on) "\<not> a \<and> b \<and> \<not> c" | (off) "\<not> a \<and> b \<and> c" | (line) "\<not> a \<and> \<not> b" | (skip) "a"
    by blast
  then show ?thesis
  proof cases
    case on
    with assms(1,2) have "curve_to g p n nn = Some cs"
      "curve_to g p' (fst n + dx, snd n + dy) (fst nn + dx, snd nn + dy) = Some cs'"
      by (simp_all add: segment_def)
    then show ?thesis by (rule curve_to_shifted)
  next
    case off
    with assms(1) obtain x y where
      h: "halfway_int (fst n) (fst nn) = Some x" "halfway_int (snd n) (snd nn) = Some y"
      and c: "curve_to g p n (x, y) = Some cs"
      by (auto simp: segment_def bind_eq_Some_conv)
    from off assms(2) obtain x' y' where
      h': "halfway_int (fst n + dx) (fst nn + dx) = Some x'" "halfway_int (snd n + dy) (snd nn + dy) = Some y'"
      and c': "curve_to g p' (fst n + dx, snd n + dy) (x', y') = Some cs'"
      by (auto simp: segment_def bind_eq_Some_conv)
    from off assms(3) have k: "keeps_side (fst n + fst nn) dx" "keeps_side (snd n + snd nn) dy"
      by simp_all
    have "x' = x + dx" by (rule halfway_int_shifted [OF h(1) h'(1) k(1)])
    moreover have "y' = y + dy" by (rule halfway_int_shifted [OF h(2) h'(2) k(2)])
    ultimately have "curve_to g p' (fst n + dx, snd n + dy) (fst (x, y) + dx, snd (x, y) + dy) = Some cs'"
      using c' by simp
    with c show ?thesis by (rule curve_to_shifted)
  next
    case line
    with assms(1,2) show ?thesis by (auto simp: segment_def)
  next
    case skip
    with assms(1,2) show ?thesis by (auto simp: segment_def)
  qed
qed

lemma iteration_shifted:
  assumes I: "iteration points tags ox oy g offset npts j = Some cs"
      and I': "iteration points tags ox' oy' g offset npts j = Some cs'"
      and P: "\<And>k. point_at points ox' oy' (k mod npts + offset) =
                 map_option (\<lambda>p. (fst p + dx, snd p + dy)) (point_at points ox oy (k mod npts + offset))"
      and K: "\<And>k p n t tn.
                 point_at points ox oy (k mod npts + offset) = Some p \<Longrightarrow>
                 point_at points ox oy ((k + 1) mod npts + offset) = Some n \<Longrightarrow>
                 vec_at tags (k mod npts + offset) = Some t \<Longrightarrow>
                 vec_at tags ((k + 1) mod npts + offset) = Some tn \<Longrightarrow>
                 \<not> tagbit1 t \<Longrightarrow> \<not> tagbit1 tn \<Longrightarrow>
                 keeps_side (fst p + fst n) dx \<and> keeps_side (snd p + snd n) dy"
  shows "list_all2 (shifted dx dy) cs cs'"
proof -
  from iteration_Some [OF I] obtain p n nn tt tn tnn where
    l: "point_at points ox oy (j mod npts + offset) = Some p"
       "point_at points ox oy ((j + 1) mod npts + offset) = Some n"
       "point_at points ox oy ((j + 2) mod npts + offset) = Some nn"
       "vec_at tags (j mod npts + offset) = Some tt"
       "vec_at tags ((j + 1) mod npts + offset) = Some tn"
       "vec_at tags ((j + 2) mod npts + offset) = Some tnn"
    by blast
  have l': "point_at points ox' oy' (j mod npts + offset) = Some (fst p + dx, snd p + dy)"
       "point_at points ox' oy' ((j + 1) mod npts + offset) = Some (fst n + dx, snd n + dy)"
       "point_at points ox' oy' ((j + 2) mod npts + offset) = Some (fst nn + dx, snd nn + dy)"
    using P [of j] P [of "j + 1"] P [of "j + 2"] l(1-3) by simp_all
  have l2: "point_at points ox oy ((j + 1 + 1) mod npts + offset) = Some nn"
       "vec_at tags ((j + 1 + 1) mod npts + offset) = Some tnn"
    using l(3,6) by (simp_all add: add.assoc)
  have K1: "keeps_side (fst p + fst n) dx \<and> keeps_side (snd p + snd n) dy"
    if "\<not> tagbit1 tt" "\<not> tagbit1 tn"
    by (rule K [OF l(1,2,4,5) that])
  have K2: "\<not> tagbit1 tn \<and> \<not> tagbit1 tnn \<longrightarrow> keeps_side (fst n + fst nn) dx \<and> keeps_side (snd n + snd nn) dy"
    using K [OF l(2) l2(1) l(5) l2(2)] by blast
  show ?thesis
  proof (cases "\<not> tagbit1 tt \<and> \<not> tagbit1 tn")
    case True
    with I obtain x y rest where
      h: "halfway_int (fst p) (fst n) = Some x" "halfway_int (snd p) (snd n) = Some y"
      and r: "segment g False True (\<not> tagbit1 tnn) (x, y) n nn = Some rest"
      and cs: "cs = (if j = 0 then [MoveTo (AsInt x) (AsInt y)] else []) @ rest"
      unfolding iteration_unfold [OF l(1-3) l(4-6)] by (auto simp: bind_eq_Some_conv)
    from True I' obtain x' y' rest' where
      h': "halfway_int (fst p + dx) (fst n + dx) = Some x'" "halfway_int (snd p + dy) (snd n + dy) = Some y'"
      and r': "segment g False True (\<not> tagbit1 tnn) (x', y') (fst n + dx, snd n + dy) (fst nn + dx, snd nn + dy) = Some rest'"
      and cs': "cs' = (if j = 0 then [MoveTo (AsInt x') (AsInt y')] else []) @ rest'"
      unfolding iteration_unfold [OF l' l(4-6)] by (auto simp: bind_eq_Some_conv)
    from True K1 have k: "keeps_side (fst p + fst n) dx" "keeps_side (snd p + snd n) dy" by simp_all
    have x': "x' = x + dx" by (rule halfway_int_shifted [OF h(1) h'(1) k(1)])
    have y': "y' = y + dy" by (rule halfway_int_shifted [OF h(2) h'(2) k(2)])
    have "list_all2 (shifted dx dy) rest rest'"
      using True K2 by (intro segment_shifted [OF r r']) simp
    then show ?thesis unfolding cs cs' by (simp add: x' y' list_all2_appendI)
  next
    case False
    with I have s: "segment g (\<not> tagbit1 tt) (\<not> tagbit1 tn) (\<not> tagbit1 tnn) p n nn = Some cs"
      unfolding iteration_unfold [OF l(1-3) l(4-6)] by (simp split: if_splits)
    from False I' have s': "segment g (\<not> tagbit1 tt) (\<not> tagbit1 tn) (\<not> tagbit1 tnn)
        (fst p + dx, snd p + dy) (fst n + dx, snd n + dy) (fst nn + dx, snd nn + dy) = Some cs'"
      unfolding iteration_unfold [OF l' l(4-6)] by (simp split: if_splits)
    show ?thesis using K2 by (intro segment_shifted [OF s s']) simp
  qed
qed

lemma contour_loop_shifted:
  assumes L: "contour_loop points tags ox oy g offset npts j = Some cs"
      and L': "contour_loop points tags ox' oy' g offset npts j = Some cs'"
      and P: "\<And>k. point_at points ox' oy' (k mod npts + offset) =
                 map_option (\<lambda>p. (fst p + dx, snd p + dy)) (point_at points ox oy (k mod npts + offset))"
      and K: "\<And>k p n t tn.
                 point_at points ox oy (k mod npts + offset) = Some p \<Longrightarrow>
                 point_at points ox oy ((k + 1) mod npts + offset) = Some n \<Longrightarrow>
                 vec_at tags (k mod npts + offset) = Some t \<Longrightarrow>
                 vec_at tags ((k + 1) mod npts + offset) = Some tn \<Longrightarrow>
                 \<not> tagbit1 t \<Longrightarrow> \<not> tagbit1 tn \<Longrightarrow>
                 keeps_side (fst p + fst n) dx \<and> keeps_side (snd p + snd n) dy"
  shows "list_all2 (shifted dx dy) cs cs'"
  using L L'
proof (induction "nat (npts - j)" arbitrary: j cs cs')
  case 0
  then have "\<not> j < npts" by simp
  with 0 show ?case by (simp add: contour_loop_stop)
next
  case (Suc m)
  then have lt: "j < npts" by linarith
  have m: "m = nat (npts - (j + 1))" using Suc.hyps(2) by linarith
  from Suc.prems(1) obtain c r where
    c: "iteration points tags ox oy g offset npts j = Some c"
    and r: "contour_loop points tags ox oy g offset npts (j + 1) = Some r"
    and cs: "cs = c @ r"
    unfolding contour_loop_step [OF lt] by (auto simp: bind_eq_Some_conv)
  from Suc.prems(2) obtain c' r' where
    c': "iteration points tags ox' oy' g offset npts j = Some c'"
    and r': "contour_loop points tags ox' oy' g offset npts (j + 1) = Some r'"
    and cs': "cs' = c' @ r'"
    unfolding contour_loop_step [OF lt] by (auto simp: bind_eq_Some_conv)
  have "list_all2 (shifted dx dy) c c'"
    by (rule iteration_shifted [OF c c' P K])
  moreover have "list_all2 (shifted dx dy) r r'"
    by (rule Suc.hyps(1) [OF m r r'])
  ultimately show ?case unfolding cs cs' by (rule list_all2_appendI)
qed

text \<open>
  C8, as amended. For any contour, either mode, offsets \<open>(offsetX, offsetY)\<close> and a
  translation \<open>(tx, ty)\<close> of the offsets, such that \<open>no_boundary\<close> holds (no truncation
  meets a boundary: the truncated coordinates of every point of the contour move by
  \<open>floor(tx)\<close> and \<open>floor(ty)\<close>, and the coordinate sums of two consecutive off-curve
  points keep their side of zero or are even): when both runs return, the translated
  run yields the same sequence of commands, kind by kind, in which every coordinate
  streamed as an \<open>int\<close> is moved by \<open>(floor(tx), floor(ty))\<close>: every coordinate of the
  \<open>Q\<close> commands, of the corrective \<open>M\<close> and of the \<open>L\<close> to a point. Nothing is said of
  the coordinates streamed as doubles: those of the initial \<open>M\<close> of the contour and,
  without Bezier statements, those of the line samples.
\<close>

theorem offset_translation:
  assumes "do_contour points tags offsetX offsetY g contour_starti contour_endi = Some cmds"
      and "do_contour points tags (dadd offsetX tx) (dadd offsetY ty) g contour_starti contour_endi = Some cmds'"
      and "no_boundary points tags offsetX offsetY tx ty contour_starti contour_endi"
  shows "list_all2 (shifted \<lfloor>tx\<rfloor> \<lfloor>ty\<rfloor>) cmds cmds'"
proof -
  let ?s = contour_starti and ?e = contour_endi
  let ?n = "?e - ?s + 1"
  from assms(1) obtain first body where
    first: "vec_at points ?s = Some first"
    and body: "contour_loop points tags offsetX offsetY g ?s ?n 0 = Some body"
    and cmds: "cmds = MoveTo (AsDouble (print_double (dadd (double_of_long (ft_x first)) offsetX)))
                          (AsDouble (print_double (dadd (double_of_long (ft_y first)) offsetY))) # body @ [ClosePath]"
    by (auto simp: do_contour_def Let_def bind_eq_Some_conv)
  from assms(2) obtain first' body' where
    first': "vec_at points ?s = Some first'"
    and body': "contour_loop points tags (dadd offsetX tx) (dadd offsetY ty) g ?s ?n 0 = Some body'"
    and cmds': "cmds' = MoveTo (AsDouble (print_double (dadd (double_of_long (ft_x first')) (dadd offsetX tx))))
                          (AsDouble (print_double (dadd (double_of_long (ft_y first')) (dadd offsetY ty)))) # body' @ [ClosePath]"
    by (auto simp: do_contour_def Let_def bind_eq_Some_conv)
  have "list_all2 (shifted \<lfloor>tx\<rfloor> \<lfloor>ty\<rfloor>) body body'"
  proof (cases "?s \<le> ?e")
    case False
    then have "\<not> 0 < ?n" by simp
    with body body' show ?thesis by (simp add: contour_loop_stop)
  next
    case True
    then have n: "0 < ?n" by simp
    have idx: "k mod ?n + ?s \<in> set [?s..?e]" for k
      using pos_mod_sign [OF n, of k] pos_mod_bound [OF n, of k] by simp
    have nx: "next_index ?s ?e (k mod ?n + ?s) = (k + 1) mod ?n + ?s" for k
      by (simp add: next_index_def mod_add_left_eq)
    have P: "point_at points (dadd offsetX tx) (dadd offsetY ty) (k mod ?n + ?s) =
               map_option (\<lambda>p. (fst p + \<lfloor>tx\<rfloor>, snd p + \<lfloor>ty\<rfloor>)) (point_at points offsetX offsetY (k mod ?n + ?s))"
      for k
      using assms(3) idx [of k] unfolding no_boundary_def by blast
    have K: "keeps_side (fst p + fst n) \<lfloor>tx\<rfloor> \<and> keeps_side (snd p + snd n) \<lfloor>ty\<rfloor>"
      if "point_at points offsetX offsetY (k mod ?n + ?s) = Some p"
         "point_at points offsetX offsetY ((k + 1) mod ?n + ?s) = Some n"
         "vec_at tags (k mod ?n + ?s) = Some t"
         "vec_at tags ((k + 1) mod ?n + ?s) = Some tn"
         "\<not> tagbit1 t" "\<not> tagbit1 tn" for k p n t tn
    proof -
      from assms(3) idx [of k]
      have "case (point_at points offsetX offsetY (k mod ?n + ?s),
                  point_at points offsetX offsetY (next_index ?s ?e (k mod ?n + ?s)),
                  vec_at tags (k mod ?n + ?s), vec_at tags (next_index ?s ?e (k mod ?n + ?s))) of
             (Some p, Some n, Some t, Some tn) \<Rightarrow>
               \<not> tagbit1 t \<and> \<not> tagbit1 tn \<longrightarrow>
                 keeps_side (fst p + fst n) \<lfloor>tx\<rfloor> \<and> keeps_side (snd p + snd n) \<lfloor>ty\<rfloor>
           | _ \<Rightarrow> True"
        unfolding no_boundary_def by blast
      then show ?thesis unfolding nx that(1-4) using that(5,6) by simp
    qed
    show ?thesis by (rule contour_loop_shifted [OF body body' P K])
  qed
  then show ?thesis unfolding cmds cmds' by (simp add: list_all2_appendI)
qed


theorem offset_translation_witness:
  "do_contour [\<lparr>ft_x = 0, ft_y = - 10\<rparr>, \<lparr>ft_x = 10, ft_y = - 20\<rparr>, \<lparr>ft_x = 20, ft_y = - 11\<rparr>, \<lparr>ft_x = 31, ft_y = - 10\<rparr>]
      [1, 0, 0, 1] (1 / 2) (- (1 / 2)) True 0 3
     = Some [MoveTo (AsDouble (1 / 2)) (AsDouble (- (21 / 2))), QuadCurveTo 10 (- 20) 15 (- 15),
             QuadCurveTo 20 (- 11) 31 (- 10), LineTo (AsInt 0) (AsInt (- 10)), ClosePath]
   \<and> do_contour [\<lparr>ft_x = 0, ft_y = - 10\<rparr>, \<lparr>ft_x = 10, ft_y = - 20\<rparr>, \<lparr>ft_x = 20, ft_y = - 11\<rparr>, \<lparr>ft_x = 31, ft_y = - 10\<rparr>]
      [1, 0, 0, 1] (dadd (1 / 2) (9 / 4)) (dadd (- (1 / 2)) 2) True 0 3
     = Some [MoveTo (AsDouble (11 / 4)) (AsDouble (- (17 / 2))), QuadCurveTo 12 (- 18) 17 (- 13),
             QuadCurveTo 22 (- 9) 33 (- 8), LineTo (AsInt 2) (AsInt (- 8)), ClosePath]
   \<and> list_all2 (shifted \<lfloor>9 / 4 :: rat\<rfloor> \<lfloor>2 :: rat\<rfloor>)
       [MoveTo (AsDouble (1 / 2)) (AsDouble (- (21 / 2))), QuadCurveTo 10 (- 20) 15 (- 15),
        QuadCurveTo 20 (- 11) 31 (- 10), LineTo (AsInt 0) (AsInt (- 10)), ClosePath]
       [MoveTo (AsDouble (11 / 4)) (AsDouble (- (17 / 2))), QuadCurveTo 12 (- 18) 17 (- 13),
        QuadCurveTo 22 (- 9) 33 (- 8), LineTo (AsInt 2) (AsInt (- 8)), ClosePath]"
proof -
  let ?P = "[\<lparr>ft_x = 0, ft_y = - 10\<rparr>, \<lparr>ft_x = 10, ft_y = - 20\<rparr>, \<lparr>ft_x = 20, ft_y = - 11\<rparr>, \<lparr>ft_x = 31, ft_y = - 10\<rparr>]"
  have 1: "do_contour ?P [1, 0, 0, 1] (1 / 2) (- (1 / 2)) True 0 3
     = Some [MoveTo (AsDouble (1 / 2)) (AsDouble (- (21 / 2))), QuadCurveTo 10 (- 20) 15 (- 15),
             QuadCurveTo 20 (- 11) 31 (- 10), LineTo (AsInt 0) (AsInt (- 10)), ClosePath]"
    by (simp add: outline_eval print_eval)
  have 2: "do_contour ?P [1, 0, 0, 1] (dadd (1 / 2) (9 / 4)) (dadd (- (1 / 2)) 2) True 0 3
     = Some [MoveTo (AsDouble (11 / 4)) (AsDouble (- (17 / 2))), QuadCurveTo 12 (- 18) 17 (- 13),
             QuadCurveTo 22 (- 9) 33 (- 8), LineTo (AsInt 2) (AsInt (- 8)), ClosePath]"
    by (simp add: outline_eval print_eval)
  have 3: "no_boundary ?P [1, 0, 0, 1] (1 / 2) (- (1 / 2)) (9 / 4) 2 0 3"
    by (simp add: no_boundary_def next_index_def keeps_side_def upto.simps outline_eval
          del: set_upto)
  from offset_translation [OF 1 2 3] 1 2 show ?thesis by blast
qed

text \<open>
  The claim C8 as written fails, away from any truncation boundary. Without Bezier
  statements, the second line sample of the arc from (9990,0) over (9997,0) to
  (10000,0) has the x coordinate \<open>9991.36\<close>; after a translation of the offsets by
  \<open>(10, 0)\<close> the six significant digits of \<open>10001.36\<close> are written, \<open>10001.4\<close>: the
  coordinate has moved by \<open>10.04\<close>, not by \<open>10\<close>.
\<close>

theorem offset_translation_counterexample:
  "map_option (\<lambda>r. path_cmds (snd r) ! 2)
     (do_outline False [\<lparr>ft_x = 9990, ft_y = 0\<rparr>, \<lparr>ft_x = 9997, ft_y = 0\<rparr>, \<lparr>ft_x = 10000, ft_y = 0\<rparr>]
        [1, 0, 1] [2] 0 0 False)
     = Some (LineTo (AsDouble (249784 / 25)) (AsDouble 0))
   \<and> map_option (\<lambda>r. path_cmds (snd r) ! 2)
     (do_outline False [\<lparr>ft_x = 9990, ft_y = 0\<rparr>, \<lparr>ft_x = 9997, ft_y = 0\<rparr>, \<lparr>ft_x = 10000, ft_y = 0\<rparr>]
        [1, 0, 1] [2] (dadd 0 10) (dadd 0 0) False)
     = Some (LineTo (AsDouble (50007 / 5)) (AsDouble 0))
   \<and> (50007 / 5 :: rat) \<noteq> 249784 / 25 + of_int \<lfloor>10 :: rat\<rfloor>
   \<and> no_boundary [\<lparr>ft_x = 9990, ft_y = 0\<rparr>, \<lparr>ft_x = 9997, ft_y = 0\<rparr>, \<lparr>ft_x = 10000, ft_y = 0\<rparr>]
        [1, 0, 1] 0 0 10 0 0 2"
proof -
  let ?P = "[\<lparr>ft_x = 9990, ft_y = 0\<rparr>, \<lparr>ft_x = 9997, ft_y = 0\<rparr>, \<lparr>ft_x = 10000, ft_y = 0\<rparr>]"
  let ?t = "3602879701896397 / 36028797018963968 :: rat"
  have 1: "map_option (\<lambda>r. path_cmds (snd r) ! 2) (do_outline False ?P [1, 0, 1] [2] 0 0 False)
     = Some (LineTo
         (AsDouble (print_double (p2_x (quadraticBezier (Point2D 9990 0) (Point2D 9997 0) (Point2D 10000 0) ?t))))
         (AsDouble (print_double (p2_y (quadraticBezier (Point2D 9990 0) (Point2D 9997 0) (Point2D 10000 0) ?t)))))"
    by (simp add: outline_eval fullQuadraticBezier_default_params default_params_def
          svgQuadraticBezier_def)
  have 2: "map_option (\<lambda>r. path_cmds (snd r) ! 2)
             (do_outline False ?P [1, 0, 1] [2] (dadd 0 10) (dadd 0 0) False)
     = Some (LineTo
         (AsDouble (print_double (p2_x (quadraticBezier (Point2D 10000 0) (Point2D 10007 0) (Point2D 10010 0) ?t))))
         (AsDouble (print_double (p2_y (quadraticBezier (Point2D 10000 0) (Point2D 10007 0) (Point2D 10010 0) ?t)))))"
    by (simp add: outline_eval fullQuadraticBezier_default_params default_params_def
          svgQuadraticBezier_def)
  have 3: "quadraticBezier (Point2D 9990 0) (Point2D 9997 0) (Point2D 10000 0) ?t
           = Point2D (686601031081001 / 68719476736) 0"
    by (simp add: quadraticBezier_def double_eval)
  have 4: "quadraticBezier (Point2D 10000 0) (Point2D 10007 0) (Point2D 10010 0) ?t
           = Point2D (5498305806786889 / 549755813888) 0"
    by (simp add: quadraticBezier_def double_eval)
  have 5: "print_double (686601031081001 / 68719476736) = 249784 / 25"
          "print_double (5498305806786889 / 549755813888) = 50007 / 5"
    by (simp_all add: print_eval)
  have 6: "(50007 / 5 :: rat) \<noteq> 249784 / 25 + of_int \<lfloor>10 :: rat\<rfloor>" by simp
  have 7: "no_boundary ?P [1, 0, 1] 0 0 10 0 0 2"
    by (simp add: no_boundary_def next_index_def keeps_side_def upto.simps outline_eval
          del: set_upto)
  from 1 2 6 7 show ?thesis unfolding 3 4 by (simp add: 5 print_double_0)
qed

end
